theory Spec2Isabelle
  imports Complex_Main "HOL-Library.AList" "HOL-Library.Multiset"
begin

section \<open>JavaScript numbers\<close>

text \<open>
  A \<open>number\<close> is an IEEE 754 double: NaN, one of the two infinities, or a finite value,
  held as the rational it denotes. The two zeros are one value, \<open>Fin 0\<close>: the program
  never divides by a number that can be negative zero and has no other way to tell the
  zeros apart. Every rational can stand under \<open>Fin\<close>; the doubles are those that
  \<open>fl\<close> returns, and the operations below agree with JavaScript's on them.
\<close>

datatype number = NaN | PosInfinity | NegInfinity | Fin rat

text \<open>Rounding a rational to an integer, a tie going to the even neighbour.\<close>

definition round_half_even :: "rat \<Rightarrow> int" where
  "round_half_even y =
     (let f = \<lfloor>y\<rfloor>; d = y - of_int f
      in if d < 1 / 2 then f else if 1 / 2 < d then f + 1 else if even f then f else f + 1)"

text \<open>The number of binary digits of a positive integer.\<close>

function bit_length :: "int \<Rightarrow> int" where
  "bit_length n = (if n \<le> 0 then 0 else 1 + bit_length (n div 2))"
  by pat_completeness auto
termination
  by (relation "measure nat") auto

declare bit_length.simps [simp del]

text \<open>For \<open>x > 0\<close>, the integer \<open>e\<close> with \<open>2 powi e \<le> x < 2 powi (e + 1)\<close>.\<close>

definition floor_log2 :: "rat \<Rightarrow> int" where
  "floor_log2 x =
     (case quotient_of x of (p, q) \<Rightarrow>
        (let k = bit_length p - bit_length q
         in if 2 powi k \<le> x then k else k - 1))"

text \<open>
  The exponent of the last place of the double nearest to \<open>x\<close>: 53 significant bits, and
  never below the exponent \<open>- 1074\<close> of the subnormal spacing.
\<close>

definition fl_exponent :: "rat \<Rightarrow> int" where
  "fl_exponent x = max (floor_log2 \<bar>x\<bar> - 52) (- 1074)"

definition overflow_threshold :: rat where
  "overflow_threshold = 2 ^ 1024"

text \<open>
  The double a real result is rounded to: to nearest, ties to even, and to an infinity
  when the rounded value reaches \<open>2 ^ 1024\<close>.
\<close>

definition fl :: "rat \<Rightarrow> number" where
  "fl x =
     (if x = 0 then Fin 0
      else
        (let y = of_int (round_half_even (x / 2 powi fl_exponent x)) * 2 powi fl_exponent x
         in if overflow_threshold \<le> y then PosInfinity
            else if y \<le> - overflow_threshold then NegInfinity
            else Fin y))"

text \<open>The operator \<open>+\<close> on numbers.\<close>

fun js_add :: "number \<Rightarrow> number \<Rightarrow> number" where
  "js_add (Fin x) (Fin y) = fl (x + y)"
| "js_add NaN b = NaN"
| "js_add a NaN = NaN"
| "js_add PosInfinity NegInfinity = NaN"
| "js_add NegInfinity PosInfinity = NaN"
| "js_add PosInfinity b = PosInfinity"
| "js_add a PosInfinity = PosInfinity"
| "js_add NegInfinity b = NegInfinity"
| "js_add a NegInfinity = NegInfinity"

text \<open>
  The operator \<open>/\<close> where the program uses it: the divisor is a count or the length of an
  array, a natural number. Dividing by 0 gives NaN or an infinity, as in JavaScript.
\<close>

fun js_divide :: "number \<Rightarrow> nat \<Rightarrow> number" where
  "js_divide (Fin x) n =
     (if n = 0 then (if x = 0 then NaN else if 0 < x then PosInfinity else NegInfinity)
      else fl (x / of_nat n))"
| "js_divide a n = a"

text \<open>
  \<open>Math.round\<close>: the integer nearest to \<open>x\<close>, a tie going up; NaN and the infinities
  are returned as they are. The result is exact, not rounded again.
\<close>

fun Math_round :: "number \<Rightarrow> number" where
  "Math_round (Fin x) = Fin (of_int \<lfloor>x + 1 / 2\<rfloor>)"
| "Math_round a = a"

text \<open>The comparison \<open>\<le>\<close>: false whenever an operand is NaN.\<close>

fun js_le :: "number \<Rightarrow> number \<Rightarrow> bool" where
  "js_le NaN b = False"
| "js_le a NaN = False"
| "js_le NegInfinity b = True"
| "js_le a PosInfinity = True"
| "js_le (Fin x) (Fin y) = (x \<le> y)"
| "js_le a b = False"

text \<open>\<open>Math.max\<close> of two numbers: NaN when either is NaN.\<close>

definition Math_max :: "number \<Rightarrow> number \<Rightarrow> number" where
  "Math_max a b = (if a = NaN \<or> b = NaN then NaN else if js_le a b then b else a)"

section \<open>JavaScript strings\<close>

text \<open>
  A string is the list of its UTF-16 code units. \<open>lit\<close> gives the string of an ASCII
  literal.
\<close>

type_synonym jsstring = "nat list"

definition lit :: "string \<Rightarrow> jsstring" where
  "lit s = map of_char s"

text \<open>
  The white space and line terminators that \<open>trim\<close> strips: tab to carriage return,
  space, no-break space, U+1680, U+2000 to U+200A, U+2028, U+2029, U+202F, U+205F, U+3000
  and U+FEFF.
\<close>

definition isWhiteSpace :: "nat \<Rightarrow> bool" where
  "isWhiteSpace c =
     ((9 \<le> c \<and> c \<le> 13) \<or> c = 32 \<or> c = 160 \<or> c = 5760 \<or> (8192 \<le> c \<and> c \<le> 8202) \<or>
      c = 8232 \<or> c = 8233 \<or> c = 8239 \<or> c = 8287 \<or> c = 12288 \<or> c = 65279)"

definition trim :: "jsstring \<Rightarrow> jsstring" where
  "trim s = rev (dropWhile isWhiteSpace (rev (dropWhile isWhiteSpace s)))"

text \<open>\<open>s.charAt(0)\<close> is the empty string when \<open>s\<close> is empty; \<open>s.slice(1)\<close> drops one code unit.\<close>

definition charAt0 :: "jsstring \<Rightarrow> jsstring" where
  "charAt0 s = take 1 s"

definition slice1 :: "jsstring \<Rightarrow> jsstring" where
  "slice1 s = drop 1 s"

text \<open>
  The built-ins whose behaviour is a table of the Unicode standard or a printing
  algorithm are parameters of the model: \<open>toLowerCase\<close>, \<open>toUpperCase\<close>, and the
  conversion of a number to a string in a template literal. What is proved for every
  \<open>Builtins\<close> holds for JavaScript's.
\<close>

record Builtins =
  toLowerCase :: "jsstring \<Rightarrow> jsstring"
  toUpperCase :: "jsstring \<Rightarrow> jsstring"
  numberToString :: "number \<Rightarrow> jsstring"

text \<open>The length of an array in a template literal: a natural number in decimal.\<close>

fun nat_toString :: "nat \<Rightarrow> jsstring" where
  "nat_toString n =
     (if n < 10 then [48 + n]
      else nat_toString (n div 10) @ [48 + n mod 10])"

declare nat_toString.simps [simp del]

section \<open>Data model (types.ts)\<close>

text \<open>The optional field \<open>fullMarks?\<close> is an \<open>option\<close>.\<close>

record SubjectScore =
  subject :: jsstring
  score :: number
  fullMarks :: "number option"

record AnalysisResult =
  studentName :: jsstring
  subjects :: "SubjectScore list"
  totalObtained :: number
  totalPossible :: number
  percentage :: number
  grade :: jsstring
  summary :: jsstring
  feedback :: "jsstring list"

datatype Status = idle | uploading | processing | success | error

record ProcessingState =
  status :: Status
  message :: "jsstring option"

text \<open>A thrown \<open>Error\<close> carries its message.\<close>

datatype Error = Error jsstring

section \<open>calculateAverageScore\<close>

text \<open>
  The argument is an \<open>option\<close> because the code tests \<open>!subjects\<close> before the length.
  \<open>reduce\<close> is a left fold from 0.
\<close>

definition calculateAverageScore :: "SubjectScore list option \<Rightarrow> number" where
  "calculateAverageScore subjects_opt =
     (case subjects_opt of
        None \<Rightarrow> Fin 0
      | Some subs \<Rightarrow>
          if length subs = 0 then Fin 0
          else (let total = foldl (\<lambda>sum sub. js_add sum (score sub)) (Fin 0) subs
                in Math_round (js_divide total (length subs))))"

section \<open>calculateClassAverage\<close>

text \<open>
  The values of \<open>subjectMap\<close>. The fields are the source's \<open>total\<close>, \<open>count\<close> and
  \<open>fullMarks\<close>, prefixed because \<open>count\<close> and \<open>fullMarks\<close> are taken. The count is a
  natural number: it starts at 0 and grows by 1.
\<close>

record SubjectAcc =
  acc_total :: number
  acc_count :: nat
  acc_fullMarks :: number

text \<open>
  \<open>sub.fullMarks || 100\<close>: the default is taken when the field is absent and also when
  it is falsy, that is 0 or NaN.
\<close>

definition fullMarks_or_100 :: "number option \<Rightarrow> number" where
  "fullMarks_or_100 fm =
     (case fm of None \<Rightarrow> Fin 100 | Some v \<Rightarrow> if v = Fin 0 \<or> v = NaN then Fin 100 else v)"

definition normKey :: "Builtins \<Rightarrow> jsstring \<Rightarrow> jsstring" where
  "normKey lib s = toLowerCase lib (trim s)"

text \<open>
  A JavaScript \<open>Map\<close> keeps its keys in insertion order and \<open>set\<close> on a key already
  there replaces the value in place: an association list with \<open>map_of\<close> for \<open>get\<close> and
  \<open>AList.update\<close> for \<open>set\<close>. The body of the inner \<open>forEach\<close>:
\<close>

definition addSubject :: "Builtins \<Rightarrow> (jsstring \<times> SubjectAcc) list \<Rightarrow> SubjectScore \<Rightarrow> (jsstring \<times> SubjectAcc) list" where
  "addSubject lib subjectMap sub =
     (let key = normKey lib (subject sub);
          current = (case map_of subjectMap key of
                       Some v \<Rightarrow> v
                     | None \<Rightarrow> \<lparr>acc_total = Fin 0, acc_count = 0,
                                acc_fullMarks = fullMarks_or_100 (fullMarks sub)\<rparr>)
      in AList.update key
           \<lparr>acc_total = js_add (acc_total current) (score sub),
            acc_count = acc_count current + 1,
            acc_fullMarks = Math_max (acc_fullMarks current) (fullMarks_or_100 (fullMarks sub))\<rparr>
           subjectMap)"

text \<open>The three variables the outer \<open>forEach\<close> updates, and its body.\<close>

record AggState =
  totalObtainedSum :: number
  totalPossibleSum :: number
  subjectMap :: "(jsstring \<times> SubjectAcc) list"

definition addResult :: "Builtins \<Rightarrow> AggState \<Rightarrow> AnalysisResult \<Rightarrow> AggState" where
  "addResult lib st res =
     \<lparr>totalObtainedSum = js_add (totalObtainedSum st) (totalObtained res),
      totalPossibleSum = js_add (totalPossibleSum st) (totalPossible res),
      subjectMap = foldl (addSubject lib) (subjectMap st) (subjects res)\<rparr>"

definition aggregate :: "Builtins \<Rightarrow> AnalysisResult list \<Rightarrow> AggState" where
  "aggregate lib results =
     foldl (addResult lib)
       \<lparr>totalObtainedSum = Fin 0, totalPossibleSum = Fin 0, subjectMap = []\<rparr> results"

definition avgSubject :: "Builtins \<Rightarrow> jsstring \<times> SubjectAcc \<Rightarrow> SubjectScore" where
  "avgSubject lib kv =
     (case kv of (key, val) \<Rightarrow>
        \<lparr>subject = toUpperCase lib (charAt0 key) @ slice1 key,
         score = Math_round (js_divide (acc_total val) (acc_count val)),
         fullMarks = Some (acc_fullMarks val)\<rparr>)"

definition classFeedback :: "jsstring list" where
  "classFeedback =
     [lit ''Review subjects with averages below 60 for curriculum adjustments.'',
      lit ''Identify top performers for advanced modules.'',
      lit ''Organize remedial sessions for students significantly below the class average.'']"

definition calculateClassAverage :: "Builtins \<Rightarrow> AnalysisResult list \<Rightarrow> Error + AnalysisResult" where
  "calculateClassAverage lib results =
     (if length results = 0 then Inl (Error (lit ''No results to average''))
      else
        (let st = aggregate lib results;
             avgSubjects = map (avgSubject lib) (subjectMap st);
             avgPercentage = calculateAverageScore (Some avgSubjects)
         in Inr \<lparr>studentName = lit ''Class Average'',
                 subjects = avgSubjects,
                 totalObtained = Math_round (js_divide (totalObtainedSum st) (length results)),
                 totalPossible = Math_round (js_divide (totalPossibleSum st) (length results)),
                 percentage = avgPercentage,
                 grade = lit '''',
                 summary = lit ''This represents the aggregated performance of ''
                   @ nat_toString (length results)
                   @ lit '' students. The class average score is ''
                   @ numberToString lib avgPercentage @ lit ''.'',
                 feedback = classFeedback\<rparr>))"

section \<open>analyzeMarksheet and handleAnalyze\<close>

text \<open>
  The request to the vision model and \<open>JSON.parse\<close> are not code of the repository:
  \<open>ai img\<close> stands for what they yield for an image, \<open>None\<close> when anything inside the
  \<open>try\<close> of \<open>analyzeMarksheet\<close> throws (a failed request, an empty response, a parse
  error). The \<open>catch\<close> replaces every cause by one fixed \<open>Error\<close>. Console output is not
  modelled.
\<close>

definition analyzeMarksheet :: "(jsstring \<Rightarrow> AnalysisResult option) \<Rightarrow> jsstring \<Rightarrow> Error + AnalysisResult" where
  "analyzeMarksheet ai base64Image =
     (case ai base64Image of
        Some res \<Rightarrow> Inr res
      | None \<Rightarrow> Inl (Error (lit ''Failed to process marksheet. Please ensure the image is clear and try again.'')))"

text \<open>What each promise of \<open>analysisPromises\<close> resolves to: \<open>.then\<close> and \<open>.catch\<close> wrap the two ends.\<close>

datatype Outcome = fulfilled AnalysisResult | rejected Error

definition settle :: "(jsstring \<Rightarrow> AnalysisResult option) \<Rightarrow> jsstring \<Rightarrow> Outcome" where
  "settle ai img =
     (case analyzeMarksheet ai img of Inr res \<Rightarrow> fulfilled res | Inl err \<Rightarrow> rejected err)"

text \<open>
  The state of the component. \<open>aggregateCalls\<close> is not a variable of the source: it counts
  the calls of \<open>calculateClassAverage\<close> that \<open>handleAnalyze\<close> makes, so that a run without
  such a call can be told from one with it.
\<close>

record AppState =
  results :: "AnalysisResult list"
  activeResultIndex :: int
  classAverageData :: "AnalysisResult option"
  processingState :: ProcessingState
  aggregateCalls :: nat

text \<open>The body of \<open>outcomes.forEach\<close>, on the pair of \<open>successfulResults\<close> and \<open>failureCount\<close>.\<close>

definition collect :: "AnalysisResult list \<times> nat \<Rightarrow> Outcome \<Rightarrow> AnalysisResult list \<times> nat" where
  "collect acc outcome =
     (case acc of (successfulResults, failureCount) \<Rightarrow>
        (case outcome of
           fulfilled v \<Rightarrow> (successfulResults @ [v], failureCount)
         | rejected reason \<Rightarrow> (successfulResults, failureCount + 1)))"

definition partition_outcomes :: "Outcome list \<Rightarrow> AnalysisResult list \<times> nat" where
  "partition_outcomes outcomes = foldl collect ([], 0) outcomes"

definition batchFailureMessage :: jsstring where
  "batchFailureMessage =
     lit ''Failed to analyze documents. Please check image quality and try again.''"

text \<open>
  The \<open>try\<close> block. \<open>Promise.all\<close> yields the outcomes in the order of the images. A throw
  leaves with the error and the state reached at that point.
\<close>

definition handleAnalyze_try :: "Builtins \<Rightarrow> (jsstring \<Rightarrow> AnalysisResult option) \<Rightarrow> jsstring list \<Rightarrow> AppState \<Rightarrow> (Error \<times> AppState) + AppState" where
  "handleAnalyze_try lib ai images st =
     (let outcomes = map (settle ai) images;
          successfulResults = fst (partition_outcomes outcomes);
          failureCount = snd (partition_outcomes outcomes)
      in if length successfulResults > 0 then
           (let st1 = st\<lparr>results := successfulResults, aggregateCalls := aggregateCalls st + 1\<rparr>
            in case calculateClassAverage lib successfulResults of
                 Inl err \<Rightarrow> Inl (err, st1)
               | Inr average \<Rightarrow>
                   Inr (st1\<lparr>classAverageData := Some average,
                            activeResultIndex := - 1,
                            processingState :=
                              \<lparr>status = success,
                               message =
                                 (if failureCount > 0
                                  then Some (lit ''Processed ''
                                             @ nat_toString (length successfulResults)
                                             @ lit '' documents. ''
                                             @ nat_toString failureCount @ lit '' failed.'')
                                  else None)\<rparr>\<rparr>))
         else Inr (st\<lparr>processingState := \<lparr>status = error, message = Some batchFailureMessage\<rparr>\<rparr>))"

text \<open>
  \<open>handleAnalyze\<close>: the three resets, the \<open>try\<close> block, and the \<open>catch\<close>, whose message is
  the error's own unless that is empty.
\<close>

definition handleAnalyze :: "Builtins \<Rightarrow> (jsstring \<Rightarrow> AnalysisResult option) \<Rightarrow> jsstring list \<Rightarrow> AppState \<Rightarrow> AppState" where
  "handleAnalyze lib ai images st =
     (let st0 = st\<lparr>processingState :=
                     \<lparr>status = processing, message = Some (lit ''Initializing batch analysis...'')\<rparr>,
                   results := [],
                   classAverageData := None\<rparr>
      in case handleAnalyze_try lib ai images st0 of
           Inr st' \<Rightarrow> st'
         | Inl (Error m, st') \<Rightarrow>
             st'\<lparr>processingState :=
                   \<lparr>status = error,
                    message = Some (if m = [] then lit ''Batch processing failed unexpectedly.''
                                    else m)\<rparr>\<rparr>)"

section \<open>Built-ins for evaluation\<close>

text \<open>
  To run the model on concrete inputs: case mappings that are JavaScript's on every string
  of code units below 256 (Basic Latin and Latin-1 Supplement, with the sharp s, the micro
  sign and the y with diaeresis, whose capitals lie outside that range) and that leave
  every other code unit unchanged, which JavaScript's do not; and a printer that is
  JavaScript's on NaN, the infinities and the integers of magnitude below \<open>10 ^ 21\<close>.
  They are used only on such inputs.
\<close>

definition latin1_toLowerCase :: "jsstring \<Rightarrow> jsstring" where
  "latin1_toLowerCase s =
     map (\<lambda>c. if (65 \<le> c \<and> c \<le> 90) \<or> (192 \<le> c \<and> c \<le> 222 \<and> c \<noteq> 215) then c + 32 else c) s"

definition latin1_toUpperCase :: "jsstring \<Rightarrow> jsstring" where
  "latin1_toUpperCase s =
     concat (map (\<lambda>c. if (97 \<le> c \<and> c \<le> 122) \<or> (224 \<le> c \<and> c \<le> 254 \<and> c \<noteq> 247) then [c - 32]
                       else if c = 223 then [83, 83]
                       else if c = 181 then [924]
                       else if c = 255 then [376]
                       else [c]) s)"

definition integer_toString :: "number \<Rightarrow> jsstring" where
  "integer_toString x =
     (case x of
        NaN \<Rightarrow> lit ''NaN''
      | PosInfinity \<Rightarrow> lit ''Infinity''
      | NegInfinity \<Rightarrow> lit ''-Infinity''
      | Fin q \<Rightarrow> if q < 0 then lit ''-'' @ nat_toString (nat (- \<lfloor>q\<rfloor>))
                  else nat_toString (nat \<lfloor>q\<rfloor>))"

definition latin1 :: Builtins where
  "latin1 =
     \<lparr>toLowerCase = latin1_toLowerCase, toUpperCase = latin1_toUpperCase,
      numberToString = integer_toString\<rparr>"

section \<open>Notions the properties are stated with\<close>

text \<open>
  All subject scores of a batch in the order the two nested loops visit them, and the
  scores that contribute to a normalization key.
\<close>

definition allSubjects :: "AnalysisResult list \<Rightarrow> SubjectScore list" where
  "allSubjects rs = concat (map subjects rs)"

definition contributors :: "Builtins \<Rightarrow> jsstring \<Rightarrow> SubjectScore list \<Rightarrow> SubjectScore list" where
  "contributors lib k subs = filter (\<lambda>s. normKey lib (subject s) = k) subs"

text \<open>
  The sum of a list of numbers as the program forms it, from 0 and from left to right,
  every addition rounded; and the running maximum of a non-empty list.
\<close>

definition float_sum :: "number list \<Rightarrow> number" where
  "float_sum xs = foldl js_add (Fin 0) xs"

definition running_max :: "number list \<Rightarrow> number" where
  "running_max xs = (case xs of [] \<Rightarrow> NaN | x # ys \<Rightarrow> foldl Math_max x ys)"

text \<open>The accumulator the loops hold for a key.\<close>

definition groupAcc :: "Builtins \<Rightarrow> jsstring \<Rightarrow> SubjectScore list \<Rightarrow> SubjectAcc" where
  "groupAcc lib k subs =
     \<lparr>acc_total = float_sum (map score (contributors lib k subs)),
      acc_count = length (contributors lib k subs),
      acc_fullMarks =
        running_max (map (\<lambda>s. fullMarks_or_100 (fullMarks s)) (contributors lib k subs))\<rparr>"

text \<open>The averaged entry the program builds for a key, if the key occurs in the batch.\<close>

definition entryOf :: "Builtins \<Rightarrow> AnalysisResult list \<Rightarrow> jsstring \<Rightarrow> SubjectScore option" where
  "entryOf lib rs k =
     map_option (\<lambda>a. avgSubject lib (k, a)) (map_of (subjectMap (aggregate lib rs)) k)"

text \<open>A string of ASCII characters only.\<close>

definition isAscii :: "jsstring \<Rightarrow> bool" where
  "isAscii s = list_all (\<lambda>c. c < 128) s"

text \<open>The default as the specification words it: 100 only where \<open>fullMarks\<close> is absent.\<close>

definition spec_fullMarks :: "number option \<Rightarrow> number" where
  "spec_fullMarks fm = (case fm of None \<Rightarrow> Fin 100 | Some v \<Rightarrow> v)"

text \<open>
  The value of a finite number, and the mean of a list of finite numbers in exact
  arithmetic, rounded to the nearest integer with a tie going up.
\<close>

definition val :: "number \<Rightarrow> rat" where
  "val x = (case x of Fin q \<Rightarrow> q | _ \<Rightarrow> 0)"

definition exact_mean :: "number list \<Rightarrow> rat" where
  "exact_mean xs = sum_list (map val xs) / of_nat (length xs)"

definition exact_rounded_mean :: "number list \<Rightarrow> int" where
  "exact_rounded_mean xs = \<lfloor>sum_list (map val xs) / of_nat (length xs) + 1 / 2\<rfloor>"

text \<open>
  Marks for which the program's sums are exact: every number of the list is an integer of
  absolute value at most \<open>B\<close>, and the length of the list times \<open>B\<close> is below \<open>2 ^ 52\<close>.
\<close>

definition is_int_within :: "int \<Rightarrow> number \<Rightarrow> bool" where
  "is_int_within B x = (case x of Fin q \<Rightarrow> q = of_int \<lfloor>q\<rfloor> \<and> \<bar>q\<bar> \<le> of_int B | _ \<Rightarrow> False)"

definition small_integers :: "int \<Rightarrow> number list \<Rightarrow> bool" where
  "small_integers B xs = (list_all (is_int_within B) xs \<and> int (length xs) * B < 2 ^ 52)"

section \<open>Example inputs\<close>

text \<open>
  A result with the fields the aggregation reads, and the two students of the
  specification's end-to-end scenario with the record they aggregate to.
\<close>

definition mkResult :: "string \<Rightarrow> SubjectScore list \<Rightarrow> number \<Rightarrow> number \<Rightarrow> AnalysisResult" where
  "mkResult name subs obtained possible =
     \<lparr>studentName = lit name, subjects = subs, totalObtained = obtained,
      totalPossible = possible, percentage = Fin 0, grade = lit ''A'', summary = lit '''',
      feedback = []\<rparr>"

definition scenario :: "AnalysisResult list" where
  "scenario =
     [mkResult ''Ann''
        [\<lparr>subject = lit ''Math'', score = Fin 80, fullMarks = Some (Fin 100)\<rparr>,
         \<lparr>subject = lit ''Science'', score = Fin 90, fullMarks = Some (Fin 100)\<rparr>]
        (Fin 170) (Fin 200),
      mkResult ''Bob''
        [\<lparr>subject = lit ''math'', score = Fin 60, fullMarks = None\<rparr>,
         \<lparr>subject = lit ''Science'', score = Fin 70, fullMarks = Some (Fin 100)\<rparr>]
        (Fin 130) (Fin 200)]"

definition scenario_average :: AnalysisResult where
  "scenario_average =
     \<lparr>studentName = lit ''Class Average'',
      subjects = [\<lparr>subject = lit ''Math'', score = Fin 70, fullMarks = Some (Fin 100)\<rparr>,
                  \<lparr>subject = lit ''Science'', score = Fin 80, fullMarks = Some (Fin 100)\<rparr>],
      totalObtained = Fin 150, totalPossible = Fin 200, percentage = Fin 75, grade = lit '''',
      summary = lit ''This represents the aggregated performance of 2 students. The class average score is 75.'',
      feedback = classFeedback\<rparr>"

text \<open>
  A student with one subject, and a list of students who each have the subject Math with
  one of the given scores and the same number as total.
\<close>

definition oneSubject :: "string \<Rightarrow> number \<Rightarrow> number option \<Rightarrow> SubjectScore" where
  "oneSubject name x fm = \<lparr>subject = lit name, score = x, fullMarks = fm\<rparr>"

definition mathStudents :: "number list \<Rightarrow> AnalysisResult list" where
  "mathStudents xs = map (\<lambda>x. mkResult ''S'' [oneSubject ''Math'' x None] x (Fin 100)) xs"

text \<open>
  Marks with a fractional part, each the double that the decimal literal denotes: 44.4,
  60.2, 32.8 and 52.6; and 73.6, 50.8 and 96.1 in two orders.
\<close>

definition decimalMarks :: "number list" where
  "decimalMarks = [fl (444 / 10), fl (602 / 10), fl (328 / 10), fl (526 / 10)]"

definition threeMarks :: "number list" where
  "threeMarks = [fl (736 / 10), fl (508 / 10), fl (961 / 10)]"

definition threeMarksRotated :: "number list" where
  "threeMarksRotated = [fl (508 / 10), fl (961 / 10), fl (736 / 10)]"

text \<open>
  A student with the two subjects A, of score \<open>2 ^ 53 = 9007199254740992\<close>, and B, of
  score 1; and the double \<open>2 ^ 1023\<close>, half of the overflow threshold.
\<close>

definition hugeStudent :: AnalysisResult where
  "hugeStudent =
     mkResult ''S'' [oneSubject ''A'' (Fin 9007199254740992) None, oneSubject ''B'' (Fin 1) None]
       (Fin 0) (Fin 0)"


text \<open>A student whose two subjects are named \<open>\<ss>\<close> (the code unit 223) and \<open>ss\<close>.\<close>

definition sharpStudent :: AnalysisResult where
  "sharpStudent =
     mkResult ''S''
       [\<lparr>subject = [223], score = Fin 10, fullMarks = None\<rparr>, oneSubject ''ss'' (Fin 20) None]
       (Fin 30) (Fin 200)"

text \<open>
  The state the component starts in (the initial values of its \<open>useState\<close> calls), and an
  extraction that succeeds on the first and third image of a batch and fails on every
  other one.
\<close>

definition initialState :: AppState where
  "initialState =
     \<lparr>results = [], activeResultIndex = - 1, classAverageData = None,
      processingState = \<lparr>status = idle, message = None\<rparr>, aggregateCalls = 0\<rparr>"

definition example_ai :: "jsstring \<Rightarrow> AnalysisResult option" where
  "example_ai img =
     (if img = lit ''img1'' then Some (scenario ! 0)
      else if img = lit ''img3'' then Some (scenario ! 1)
      else None)"

section \<open>Rounding to a double\<close>

lemma bit_length_bounds:
  "0 < n \<Longrightarrow> 1 \<le> bit_length n \<and> 2 ^ nat (bit_length n - 1) \<le> n \<and> n < 2 ^ nat (bit_length n)"
proof (induction n rule: bit_length.induct)
  case (1 n)
  show ?case
  proof (cases "n div 2 = 0")
    case True
    with "1.prems" have n: "n = 1" by presburger
    have "bit_length 1 = 1" by (simp add: bit_length.simps)
    with n show ?thesis by simp
  next
    case False
    with "1.prems" have h: "0 < n div 2" by presburger
    let ?b = "bit_length (n div 2)"
    from "1.IH" h "1.prems" have b: "1 \<le> ?b" and lo: "2 ^ nat (?b - 1) \<le> n div 2"
      and hi: "n div 2 < 2 ^ nat ?b" by auto
    have e: "bit_length n = 1 + ?b" using "1.prems" by (subst bit_length.simps) simp
    have s: "nat (1 + ?b) = Suc (nat ?b)" "nat ?b = Suc (nat (?b - 1))" using b by auto
    have "2 ^ nat ?b \<le> n"
    proof -
      have "(2::int) ^ nat ?b = 2 * 2 ^ nat (?b - 1)" by (subst s(2)) simp
      also have "\<dots> \<le> 2 * (n div 2)" using lo by simp
      also have "\<dots> \<le> n" by presburger
      finally show ?thesis .
    qed
    moreover have "n < 2 ^ nat (1 + ?b)"
    proof -
      have "n \<le> 2 * (n div 2) + 1" by presburger
      also have "\<dots> < 2 * 2 ^ nat ?b" using hi by simp
      also have "\<dots> = 2 ^ nat (1 + ?b)" by (subst s(1)) simp
      finally show ?thesis .
    qed
    ultimately show ?thesis using b e by simp
  qed
qed

lemma two_powi_nat: "0 \<le> k \<Longrightarrow> (2::rat) powi k = 2 ^ nat k"
  by (simp add: power_int_def)

lemma floor_log2_bounds:
  assumes "0 < x"
  shows "2 powi floor_log2 x \<le> x" and "x < 2 powi (floor_log2 x + 1)"
proof -
  obtain p q where pq: "quotient_of x = (p, q)" by (cases "quotient_of x")
  have q: "0 < q" using pq by (rule quotient_of_denom_pos)
  have x: "x = of_int p / of_int q" using pq by (rule quotient_of_div)
  have p: "0 < p" using assms q unfolding x by (simp add: zero_less_divide_iff)
  let ?bp = "bit_length p" and ?bq = "bit_length q"
  let ?k = "?bp - ?bq"
  note bp = bit_length_bounds[OF p] and bq = bit_length_bounds[OF q]
  have P1: "(2::rat) powi (?bp - 1) \<le> of_int p"
  proof -
    have "(of_int (2 ^ nat (?bp - 1)) :: rat) \<le> of_int p" using bp by (simp only: of_int_le_iff)
    then show ?thesis using bp by (simp add: two_powi_nat)
  qed
  have P2: "of_int p < (2::rat) powi ?bp"
  proof -
    have "(of_int p :: rat) < of_int (2 ^ nat ?bp)" using bp by (simp only: of_int_less_iff)
    then show ?thesis using bp by (simp add: two_powi_nat)
  qed
  have Q1: "(2::rat) powi (?bq - 1) \<le> of_int q"
  proof -
    have "(of_int (2 ^ nat (?bq - 1)) :: rat) \<le> of_int q" using bq by (simp only: of_int_le_iff)
    then show ?thesis using bq by (simp add: two_powi_nat)
  qed
  have Q2: "of_int q < (2::rat) powi ?bq"
  proof -
    have "(of_int q :: rat) < of_int (2 ^ nat ?bq)" using bq by (simp only: of_int_less_iff)
    then show ?thesis using bq by (simp add: two_powi_nat)
  qed
  have qpos: "(0::rat) < of_int q" using q by simp
  have lowk: "2 powi (?k - 1) \<le> x"
  proof -
    have "(2::rat) powi (?k - 1) = 2 powi (?bp - 1) / 2 powi ?bq"
      using power_int_diff[of "2::rat" "?bp - 1" ?bq] by (simp add: algebra_simps)
    also have "\<dots> \<le> of_int p / 2 powi ?bq"
      using P1 by (simp add: divide_right_mono)
    also have "\<dots> \<le> of_int p / of_int q"
      using Q2 qpos p by (intro divide_left_mono) (simp_all add: less_imp_le)
    finally show ?thesis unfolding x .
  qed
  have highk: "x < 2 powi (?k + 1)"
  proof -
    have "x = of_int p / of_int q" by (rule x)
    also have "\<dots> < 2 powi ?bp / of_int q"
      using P2 qpos by (simp add: divide_strict_right_mono)
    also have "\<dots> \<le> 2 powi ?bp / 2 powi (?bq - 1)"
      using Q1 qpos by (intro divide_left_mono) simp_all
    also have "\<dots> = 2 powi (?k + 1)"
      using power_int_diff[of "2::rat" ?bp "?bq - 1"] by (simp add: algebra_simps)
    finally show ?thesis .
  qed
  have f: "floor_log2 x = (if 2 powi ?k \<le> x then ?k else ?k - 1)"
    by (simp add: floor_log2_def pq Let_def)
  show "2 powi floor_log2 x \<le> x" using lowk by (simp add: f)
  show "x < 2 powi (floor_log2 x + 1)" using highk by (auto simp: f not_le)
qed

lemma round_half_even_of_int [simp]: "round_half_even (of_int i) = i"
  by (simp add: round_half_even_def)

lemma round_half_even_error: "\<bar>of_int (round_half_even y) - y\<bar> \<le> 1 / 2"
proof -
  have "of_int \<lfloor>y\<rfloor> \<le> y" "y < of_int \<lfloor>y\<rfloor> + 1" by linarith+
  then show ?thesis by (auto simp: round_half_even_def Let_def)
qed

lemma two_powi_pos [simp]: "(0::rat) < 2 powi k"
  by simp

lemma two_powi_less_imp: "(2::rat) powi a < 2 powi b \<Longrightarrow> a < b"
proof (rule ccontr)
  assume l: "(2::rat) powi a < 2 powi b" and "\<not> a < b"
  then have "b \<le> a" by simp
  then have "(2::rat) powi b \<le> 2 powi a" by (intro power_int_increasing) simp_all
  with l show False by simp
qed

lemma fl_unfold:
  "x \<noteq> 0 \<Longrightarrow>
   fl x =
     (let y = of_int (round_half_even (x / 2 powi fl_exponent x)) * 2 powi fl_exponent x
      in if overflow_threshold \<le> y then PosInfinity
         else if y \<le> - overflow_threshold then NegInfinity
         else Fin y)"
  by (simp add: fl_def Let_def)

lemma fl_exact_scaled:
  assumes "x \<noteq> 0" and "x / 2 powi fl_exponent x = of_int i" and "\<bar>x\<bar> < overflow_threshold"
  shows "fl x = Fin x"
proof -
  have "of_int (round_half_even (x / 2 powi fl_exponent x)) * 2 powi fl_exponent x = x"
    unfolding assms(2) round_half_even_of_int
    using assms(2)[symmetric] by simp
  then show ?thesis using assms(1,3) by (simp add: fl_unfold Let_def abs_less_iff not_le)
qed

lemma fl_exact:
  assumes m: "\<bar>m\<bar> < 2 ^ 53" and j: "- 1074 \<le> j" and x: "x = of_int m * 2 powi j"
    and b: "\<bar>x\<bar> < overflow_threshold"
  shows "fl x = Fin x"
proof (cases "x = 0")
  case True
  then show ?thesis by (simp add: fl_def)
next
  case False
  have ax: "0 < \<bar>x\<bar>" using False by simp
  let ?L = "floor_log2 \<bar>x\<bar>"
  have "\<bar>x\<bar> = of_int \<bar>m\<bar> * 2 powi j" unfolding x by (simp add: abs_mult)
  also have "\<dots> < of_int (2 ^ 53) * 2 powi j"
    using m by (intro mult_strict_right_mono) (simp_all only: of_int_less_iff two_powi_pos)
  also have "\<dots> = 2 powi (53 + j)"
    using power_int_add[of "2::rat" 53 j] by simp
  finally have "\<bar>x\<bar> < 2 powi (53 + j)" .
  with floor_log2_bounds(1)[OF ax] have "(2::rat) powi ?L < 2 powi (53 + j)" by simp
  then have "?L < 53 + j" by (rule two_powi_less_imp)
  with j have e: "fl_exponent x \<le> j" by (simp add: fl_exponent_def)
  let ?d = "j - fl_exponent x"
  have d: "0 \<le> ?d" using e by simp
  have "x / 2 powi fl_exponent x = of_int m * (2 powi j / 2 powi fl_exponent x)" unfolding x by simp
  also have "2 powi j / 2 powi fl_exponent x = (2::rat) powi ?d"
    using power_int_diff[of "2::rat" j "fl_exponent x"] by simp
  also have "(2::rat) powi ?d = of_int (2 ^ nat ?d)" using d by (simp add: power_int_def)
  finally have "x / 2 powi fl_exponent x = of_int (m * 2 ^ nat ?d)" by simp
  with False b show ?thesis by (intro fl_exact_scaled)
qed

lemma below_threshold:
  assumes "\<bar>x\<bar> \<le> 2 ^ 53"
  shows "\<bar>x\<bar> < overflow_threshold"
proof -
  have "(2::rat) ^ 53 < 2 ^ 1024" by (rule power_strict_increasing) simp_all
  with assms show ?thesis unfolding overflow_threshold_def by (rule le_less_trans)
qed

lemma abs_of_int_le: "\<bar>n\<bar> \<le> k \<Longrightarrow> \<bar>(of_int n :: rat)\<bar> \<le> of_int k"
  by (simp flip: of_int_abs)

lemma fl_int:
  assumes "\<bar>n\<bar> \<le> 2 ^ 53"
  shows "fl (of_int n) = Fin (of_int n)"
proof (cases "\<bar>n\<bar> = 2 ^ 53")
  case True
  then consider "n = 2 ^ 53" | "n = - (2 ^ 53)" by linarith
  then show ?thesis
  proof cases
    case 1
    have b: "\<bar>(of_int (2 ^ 52) * 2 powi 1 :: rat)\<bar> < overflow_threshold"
      by (rule below_threshold) simp
    have "fl (of_int (2 ^ 52) * 2 powi 1) = Fin (of_int (2 ^ 52) * 2 powi 1)"
      by (rule fl_exact[of "2 ^ 52" 1, OF _ _ _ b]) simp_all
    then show ?thesis unfolding 1 by simp
  next
    case 2
    have b: "\<bar>(of_int (- (2 ^ 52)) * 2 powi 1 :: rat)\<bar> < overflow_threshold"
      by (rule below_threshold) simp
    have "fl (of_int (- (2 ^ 52)) * 2 powi 1) = Fin (of_int (- (2 ^ 52)) * 2 powi 1)"
      by (rule fl_exact[of "- (2 ^ 52)" 1, OF _ _ _ b]) simp_all
    then show ?thesis unfolding 2 by simp
  qed
next
  case False
  with assms have lt: "\<bar>n\<bar> < 2 ^ 53" by simp
  have "\<bar>(of_int n :: rat)\<bar> \<le> of_int (2 ^ 53)" using assms by (rule abs_of_int_le)
  then have b: "\<bar>(of_int n :: rat)\<bar> < overflow_threshold" by (intro below_threshold) simp
  show ?thesis by (rule fl_exact[of n 0, OF lt _ _ b]) simp_all
qed

lemma fl_half_int:
  assumes "\<bar>m\<bar> < 2 ^ 53"
  shows "fl (of_int m / 2) = Fin (of_int m / 2)"
proof -
  have "\<bar>m\<bar> \<le> 2 ^ 53" using assms by simp
  then have "\<bar>(of_int m :: rat)\<bar> \<le> of_int (2 ^ 53)" by (rule abs_of_int_le)
  moreover have "\<bar>(of_int m :: rat) / 2\<bar> \<le> \<bar>of_int m\<bar>" by simp
  ultimately have "\<bar>(of_int m :: rat) / 2\<bar> \<le> 2 ^ 53" by simp
  then have b: "\<bar>(of_int m :: rat) / 2\<bar> < overflow_threshold" by (rule below_threshold)
  show ?thesis by (rule fl_exact[of m "- 1", OF assms _ _ b]) simp_all
qed

lemma fl_error:
  assumes lo: "2 powi (- 1022) \<le> \<bar>x\<bar>" and hi: "\<bar>x\<bar> \<le> 2 ^ 1023"
  shows "\<exists>y. fl x = Fin y \<and> \<bar>y - x\<bar> \<le> \<bar>x\<bar> / 2 ^ 53"
proof -
  have ax: "0 < \<bar>x\<bar>" using lo two_powi_pos[of "- 1022"] by linarith
  then have nz: "x \<noteq> 0" by simp
  let ?L = "floor_log2 \<bar>x\<bar>"
  have "(2::rat) powi (- 1022) < 2 powi (?L + 1)"
    using lo floor_log2_bounds(2)[OF ax] by simp
  then have "- 1022 < ?L + 1" by (rule two_powi_less_imp)
  then have e: "fl_exponent x = ?L - 52" by (simp add: fl_exponent_def)
  let ?e = "fl_exponent x"
  let ?r = "of_int (round_half_even (x / 2 powi ?e)) :: rat"
  let ?y = "?r * 2 powi ?e"
  have "\<bar>?y - x\<bar> = \<bar>?r - x / 2 powi ?e\<bar> * 2 powi ?e"
  proof -
    have "?y - x = (?r - x / 2 powi ?e) * 2 powi ?e" by (simp add: algebra_simps)
    then show ?thesis by (simp only: abs_mult) simp
  qed
  also have "\<dots> \<le> 1 / 2 * 2 powi ?e"
    by (intro mult_right_mono round_half_even_error) simp
  also have "1 / 2 * 2 powi ?e = (2::rat) powi (?L - 53)"
    unfolding e using power_int_diff[of "2::rat" "?L - 52" 1] by simp
  also have "\<dots> = 2 powi ?L / 2 ^ 53"
    using power_int_diff[of "2::rat" ?L 53] by simp
  also have "\<dots> \<le> \<bar>x\<bar> / 2 ^ 53"
    using floor_log2_bounds(1)[OF ax] by (simp add: divide_right_mono)
  finally have err: "\<bar>?y - x\<bar> \<le> \<bar>x\<bar> / 2 ^ 53" .
  have "\<bar>?y\<bar> \<le> \<bar>x\<bar> + \<bar>x\<bar> / 2 ^ 53" using err by linarith
  also have "\<dots> < \<bar>x\<bar> + \<bar>x\<bar>" using ax by (intro add_strict_left_mono) (simp add: field_simps)
  also have "\<dots> \<le> 2 ^ 1023 + 2 ^ 1023" using hi by (intro add_mono)
  also have "\<dots> = overflow_threshold" unfolding overflow_threshold_def by simp
  finally have "\<bar>?y\<bar> < overflow_threshold" .
  then have "fl x = Fin ?y" using nz by (simp add: fl_unfold Let_def abs_less_iff not_le)
  with err show ?thesis by blast
qed

section \<open>Sums and quotients that are exact\<close>

lemma js_add_ints:
  "\<bar>a + b\<bar> \<le> 2 ^ 53 \<Longrightarrow> js_add (Fin (of_int a)) (Fin (of_int b)) = Fin (of_int (a + b))"
  using fl_int[of "a + b"] by simp

lemma foldl_js_add_ints:
  "\<bar>a\<bar> + sum_list (map abs xs) \<le> 2 ^ 53 \<Longrightarrow>
   foldl js_add (Fin (of_int a)) (map (\<lambda>i. Fin (of_int i)) xs) = Fin (of_int (a + sum_list xs))"
proof (induction xs arbitrary: a)
  case Nil
  show ?case by simp
next
  case (Cons x xs)
  have 1: "\<bar>a + x\<bar> \<le> 2 ^ 53"
  proof -
    have "0 \<le> sum_list (map abs xs)" by (rule sum_list_nonneg) auto
    with Cons.prems show ?thesis by simp
  qed
  have 2: "\<bar>a + x\<bar> + sum_list (map abs xs) \<le> 2 ^ 53" using Cons.prems by simp
  have "foldl js_add (Fin (of_int a)) (map (\<lambda>i. Fin (of_int i)) (x # xs))
      = foldl js_add (js_add (Fin (of_int a)) (Fin (of_int x))) (map (\<lambda>i. Fin (of_int i)) xs)"
    by (simp only: list.map foldl_Cons)
  also have "\<dots> = Fin (of_int (a + x + sum_list xs))"
    by (simp only: js_add_ints[OF 1] Cons.IH[OF 2])
  finally show ?case by (simp add: add.assoc)
qed

lemma is_int_withinD:
  assumes "is_int_within B x"
  shows "x = Fin (of_int \<lfloor>val x\<rfloor>)" and "\<bar>\<lfloor>val x\<rfloor>\<bar> \<le> B"
    and "val x = of_int \<lfloor>val x\<rfloor>"
proof -
  from assms obtain q where x: "x = Fin q" and q: "q = of_int \<lfloor>q\<rfloor>" and b: "\<bar>q\<bar> \<le> of_int B"
    by (cases x) (auto simp: is_int_within_def)
  show "x = Fin (of_int \<lfloor>val x\<rfloor>)" using q by (simp add: x val_def)
  have "\<bar>(of_int \<lfloor>q\<rfloor> :: rat)\<bar> \<le> of_int B" using b q by simp
  then have "\<bar>\<lfloor>q\<rfloor>\<bar> \<le> B" by (simp only: of_int_abs[symmetric] of_int_le_iff)
  then show "\<bar>\<lfloor>val x\<rfloor>\<bar> \<le> B" by (simp add: x val_def)
  show "val x = of_int \<lfloor>val x\<rfloor>" using q by (simp add: x val_def)
qed

lemma is_int_within_Fin: "\<bar>i\<bar> \<le> B \<Longrightarrow> is_int_within B (Fin (of_int i))"
  by (simp add: is_int_within_def flip: of_int_abs)

lemma list_all_ints:
  assumes "list_all (is_int_within B) xs"
  shows "xs = map (\<lambda>i. Fin (of_int i)) (map (\<lambda>x. \<lfloor>val x\<rfloor>) xs)"
    and "sum_list (map abs (map (\<lambda>x. \<lfloor>val x\<rfloor>) xs)) \<le> int (length xs) * B"
    and "sum_list (map val xs) = of_int (sum_list (map (\<lambda>x. \<lfloor>val x\<rfloor>) xs))"
  using assms
proof (induction xs)
  case Nil
  { case 1 show ?case by simp }
  { case 2 show ?case by simp }
  { case 3 show ?case by simp }
next
  case (Cons x xs)
  { case 1
    then show ?case using Cons.IH(1) is_int_withinD(1)[of B x] by simp }
  { case 2
    then show ?case using Cons.IH(2) is_int_withinD(2)[of B x] by (simp add: algebra_simps) }
  { case 3
    then show ?case using Cons.IH(3) is_int_withinD(3)[of B x] by simp }
qed

lemma floor_half_between:
  fixes z :: rat
  assumes "of_int k < z" and "z < of_int k + 1"
  shows "\<lfloor>z / 2\<rfloor> = k div 2"
proof (rule floor_unique)
  have "(of_int (2 * (k div 2) + k mod 2) :: rat) = of_int k" by (simp only: mult_div_mod_eq)
  then have k: "(of_int k :: rat) = 2 * of_int (k div 2) + of_int (k mod 2)"
    by (simp only: of_int_add of_int_mult of_int_numeral)
  have "0 \<le> k mod 2" "k mod 2 \<le> 1" by presburger+
  then have "(of_int 0 :: rat) \<le> of_int (k mod 2)" "(of_int (k mod 2) :: rat) \<le> of_int 1"
    by (simp_all only: of_int_le_iff)
  then have m: "(0::rat) \<le> of_int (k mod 2)" "(of_int (k mod 2) :: rat) \<le> 1" by simp_all
  show "of_int (k div 2) \<le> z / 2" using assms(1) k m(1) by linarith
  show "z / 2 < of_int (k div 2) + 1" using assms(2) k m(2) by linarith
qed

lemma rounded_quotient_aux:
  assumes t: "\<bar>t\<bar> < 2 ^ 52" and n: "0 < n" and nb: "t = 0 \<or> int n < 2 ^ 52"
  shows "\<exists>y. fl (of_int t / of_nat n) = Fin y \<and>
           \<lfloor>y + 1 / 2\<rfloor> = \<lfloor>(of_int t / of_nat n :: rat) + 1 / 2\<rfloor>"
proof -
  let ?N = "of_nat n :: rat"
  let ?q = "of_int t / ?N"
  have N: "0 < ?N" "1 \<le> ?N" using n by simp_all
  consider (zero) "t = 0" | (half) "t \<noteq> 0" "int n dvd 2 * t" | (other) "t \<noteq> 0" "\<not> int n dvd 2 * t"
    by blast
  then show ?thesis
  proof cases
    case zero
    then show ?thesis by (simp add: fl_def)
  next
    case half
    then obtain m where m: "2 * t = int n * m" by (auto simp: dvd_def)
    have "1 * \<bar>m\<bar> \<le> int n * \<bar>m\<bar>" using n by (intro mult_right_mono) simp_all
    then have "\<bar>m\<bar> \<le> \<bar>int n * m\<bar>" by (simp add: abs_mult)
    also have "\<dots> = 2 * \<bar>t\<bar>" using m by simp
    also have "\<dots> < 2 ^ 53" using t by simp
    finally have mb: "\<bar>m\<bar> < 2 ^ 53" .
    have "(of_int (2 * t) :: rat) = of_int (int n * m)" using m by simp
    then have "2 * (of_int t :: rat) = ?N * of_int m" by simp
    then have q: "?q = of_int m / 2" using N by (simp add: field_simps)
    show ?thesis unfolding q fl_half_int[OF mb] by blast
  next
    case other
    with nb have nlt: "int n < 2 ^ 52" by simp
    let ?d = "(2 * t) div int n" and ?r = "(2 * t) mod int n"
    have "0 \<le> ?r" using n by simp
    moreover have "?r \<noteq> 0" using other(2) by (simp only: dvd_eq_mod_eq_0 not_False_eq_True)
    ultimately have r0: "0 < ?r" by linarith
    have r3: "?r < int n" using n by simp
    note r = r0 r3
    have "(of_int (?d * int n + ?r) :: rat) = of_int (2 * t)" by (simp only: div_mult_mod_eq)
    then have e: "2 * (of_int t :: rat) = of_int ?d * ?N + of_int ?r"
      by (simp only: of_int_add of_int_mult of_int_numeral of_int_of_nat_eq)
    have q2: "2 * ?q = of_int ?d + of_int ?r / ?N" using e N by (simp add: field_simps)
    have r1: "1 / ?N \<le> of_int ?r / ?N"
    proof -
      have "1 \<le> ?r" using r(1) by linarith
      then have "(1::rat) \<le> of_int ?r" by (simp only: of_int_1_le_iff)
      then show ?thesis using N by (simp add: divide_right_mono)
    qed
    have r2: "of_int ?r / ?N \<le> 1 - 1 / ?N"
    proof -
      have "?r \<le> int n - 1" using r(2) by simp
      then have "(of_int ?r :: rat) \<le> of_int (int n - 1)" by (simp only: of_int_le_iff)
      then have "(of_int ?r :: rat) \<le> ?N - 1" by simp
      then have "of_int ?r / ?N \<le> (?N - 1) / ?N" using N by (simp add: divide_right_mono)
      also have "\<dots> = 1 - 1 / ?N" using N by (simp add: field_simps)
      finally show ?thesis .
    qed
    have tn: "1 \<le> \<bar>(of_int t :: rat)\<bar>"
    proof -
      have "1 \<le> \<bar>t\<bar>" using other(1) by simp
      then have "(of_int 1 :: rat) \<le> of_int \<bar>t\<bar>" by (simp only: of_int_le_iff)
      then show ?thesis by simp
    qed
    have tb: "\<bar>(of_int t :: rat)\<bar> < 2 ^ 52"
    proof -
      have "(of_int \<bar>t\<bar> :: rat) < of_int (2 ^ 52)" using t by (simp only: of_int_less_iff)
      then show ?thesis by simp
    qed
    have aq: "\<bar>?q\<bar> = \<bar>of_int t\<bar> / ?N" using N by simp
    have lo: "2 powi (- 1022) \<le> \<bar>?q\<bar>"
    proof -
      have "(2::rat) powi (- 1022) \<le> 2 powi (- 52)" by (intro power_int_increasing) simp_all
      also have "\<dots> = 1 / 2 ^ 52" by (simp add: power_int_minus field_simps)
      also have "\<dots> \<le> 1 / ?N"
      proof -
        have "(of_int (int n) :: rat) < of_int (2 ^ 52)" using nlt by (simp only: of_int_less_iff)
        then have "?N \<le> 2 ^ 52" by simp
        then show ?thesis using N by (intro divide_left_mono) simp_all
      qed
      also have "\<dots> \<le> \<bar>of_int t\<bar> / ?N" using tn N by (simp add: divide_right_mono)
      finally show ?thesis unfolding aq .
    qed
    have qle: "\<bar>?q\<bar> \<le> \<bar>of_int t\<bar>"
    proof -
      have "\<bar>of_int t\<bar> / ?N \<le> \<bar>of_int t\<bar> / 1" using N by (intro divide_left_mono) simp_all
      then show ?thesis unfolding aq by simp
    qed
    have hi: "\<bar>?q\<bar> \<le> 2 ^ 1023"
    proof -
      have "(2::rat) ^ 52 \<le> 2 ^ 1023" by (rule power_increasing) simp_all
      with qle tb show ?thesis by linarith
    qed
    from fl_error[OF lo hi] obtain y where y: "fl ?q = Fin y" and err: "\<bar>y - ?q\<bar> \<le> \<bar>?q\<bar> / 2 ^ 53"
      by blast
    have "\<bar>?q\<bar> / 2 ^ 53 < (2 ^ 52 / ?N) / 2 ^ 53"
      unfolding aq using tb N by (intro divide_strict_right_mono) simp_all
    also have "\<dots> = 1 / (2 * ?N)" by simp
    finally have ab: "\<bar>y - ?q\<bar> < 1 / (2 * ?N)" using err by linarith
    have h: "2 * (1 / (2 * ?N)) = 1 / ?N" using N by simp
    have y2: "of_int ?d < 2 * y" "2 * y < of_int ?d + 1"
      using ab h q2 r1 r2 by linarith+
    have q3: "of_int ?d < 2 * ?q" "2 * ?q < of_int ?d + 1"
    proof -
      have "0 < 1 / ?N" using N by simp
      then show "of_int ?d < 2 * ?q" "2 * ?q < of_int ?d + 1" using q2 r1 r2 by linarith+
    qed
    have fy: "\<lfloor>(2 * y + 1) / 2\<rfloor> = (?d + 1) div 2"
      using y2 by (intro floor_half_between) simp_all
    have fq: "\<lfloor>(2 * ?q + 1) / 2\<rfloor> = (?d + 1) div 2"
      using q3 by (intro floor_half_between) simp_all
    have ey: "(2 * y + 1) / 2 = y + 1 / 2" by (simp add: field_simps)
    have eq: "(2 * ?q + 1) / 2 = ?q + 1 / 2" by (simp add: field_simps)
    have "\<lfloor>y + 1 / 2\<rfloor> = \<lfloor>?q + 1 / 2\<rfloor>"
      using fy fq unfolding ey eq by (rule trans[OF _ sym])
    with y show ?thesis by blast
  qed
qed

lemma rounded_quotient_exact:
  assumes "\<bar>t\<bar> < 2 ^ 52" and "0 < n" and "t = 0 \<or> int n < 2 ^ 52"
  shows "Math_round (js_divide (Fin (of_int t)) n)
           = Fin (of_int \<lfloor>(of_int t / of_nat n :: rat) + 1 / 2\<rfloor>)"
proof -
  from rounded_quotient_aux[OF assms] obtain y where
    "fl (of_int t / of_nat n) = Fin y"
    "\<lfloor>y + 1 / 2\<rfloor> = \<lfloor>(of_int t / of_nat n :: rat) + 1 / 2\<rfloor>"
    by blast
  then show ?thesis using assms(2) by simp
qed

lemma small_integers_sum:
  assumes "small_integers B xs"
  shows "float_sum xs = Fin (of_int (sum_list (map (\<lambda>x. \<lfloor>val x\<rfloor>) xs)))"
    and "sum_list (map val xs) = of_int (sum_list (map (\<lambda>x. \<lfloor>val x\<rfloor>) xs))"
    and "\<bar>sum_list (map (\<lambda>x. \<lfloor>val x\<rfloor>) xs)\<bar> \<le> int (length xs) * B"
    and "int (length xs) * B < 2 ^ 52"
proof -
  let ?is = "map (\<lambda>x. \<lfloor>val x\<rfloor>) xs"
  from assms have a: "list_all (is_int_within B) xs" and b: "int (length xs) * B < 2 ^ 52"
    by (simp_all add: small_integers_def)
  note l = list_all_ints[OF a]
  have s: "\<bar>sum_list ?is\<bar> \<le> sum_list (map abs ?is)" by (rule sum_list_abs)
  show 3: "\<bar>sum_list ?is\<bar> \<le> int (length xs) * B" using s l(2) by linarith
  show "int (length xs) * B < 2 ^ 52" by (rule b)
  show "sum_list (map val xs) = of_int (sum_list ?is)" by (rule l(3))
  have "\<bar>0::int\<bar> + sum_list (map abs ?is) \<le> 2 ^ 53" using l(2) b by simp
  from foldl_js_add_ints[OF this]
  have "foldl js_add (Fin 0) (map (\<lambda>i. Fin (of_int i)) ?is) = Fin (of_int (sum_list ?is))"
    by simp
  then show "float_sum xs = Fin (of_int (sum_list ?is))"
    unfolding float_sum_def using l(1) by simp
qed

lemma abs_floor_half_le:
  fixes q :: rat
  assumes "\<bar>q\<bar> \<le> of_int B"
  shows "\<bar>\<lfloor>q + 1 / 2\<rfloor>\<bar> \<le> B"
proof -
  have "q + 1 / 2 < of_int (B + 1)" using assms by simp
  then have u: "\<lfloor>q + 1 / 2\<rfloor> < B + 1" by (simp only: floor_less_iff)
  have "of_int (- B) \<le> q + 1 / 2" using assms by simp
  then have "- B \<le> \<lfloor>q + 1 / 2\<rfloor>" by (simp only: le_floor_iff)
  with u show ?thesis by linarith
qed

lemma rounded_mean_exact:
  assumes s: "small_integers B xs" and ne: "xs \<noteq> []"
  shows "Math_round (js_divide (float_sum xs) (length xs)) = Fin (of_int (exact_rounded_mean xs))"
    and "\<bar>exact_rounded_mean xs\<bar> \<le> B"
proof -
  let ?t = "sum_list (map (\<lambda>x. \<lfloor>val x\<rfloor>) xs)"
  let ?n = "length xs"
  note f = small_integers_sum[OF s]
  have n: "0 < ?n" using ne by simp
  have t: "\<bar>?t\<bar> < 2 ^ 52" using f(3,4) by linarith
  have nb: "?t = 0 \<or> int ?n < 2 ^ 52"
  proof (cases "?t = 0")
    case False
    then have "0 < \<bar>?t\<bar>" by simp
    with f(3) have "0 < int ?n * B" by linarith
    then have "1 \<le> B" using n by (simp add: zero_less_mult_iff)
    then have "int ?n * 1 \<le> int ?n * B" by (intro mult_left_mono) simp_all
    with f(4) show ?thesis by simp
  qed simp
  have e: "exact_rounded_mean xs = \<lfloor>(of_int ?t / of_nat ?n :: rat) + 1 / 2\<rfloor>"
    by (simp add: exact_rounded_mean_def f(2))
  show "Math_round (js_divide (float_sum xs) (length xs)) = Fin (of_int (exact_rounded_mean xs))"
    unfolding f(1) e by (rule rounded_quotient_exact[OF t n nb])
  have B0: "0 \<le> B"
  proof -
    have "0 \<le> \<bar>?t\<bar>" by simp
    with f(3) have "0 \<le> int ?n * B" by linarith
    then show ?thesis using n by (simp add: zero_le_mult_iff)
  qed
  have "\<bar>(of_int ?t / of_nat ?n :: rat)\<bar> \<le> of_int B"
  proof -
    have "(of_int \<bar>?t\<bar> :: rat) \<le> of_int (int ?n * B)" using f(3) by (simp only: of_int_le_iff)
    then have "\<bar>(of_int ?t :: rat)\<bar> \<le> of_nat ?n * of_int B" by simp
    then have "\<bar>(of_int ?t :: rat)\<bar> / of_nat ?n \<le> of_int B"
      using n by (simp add: field_simps)
    then show ?thesis using n by simp
  qed
  then show "\<bar>exact_rounded_mean xs\<bar> \<le> B" unfolding e by (rule abs_floor_half_le)
qed

lemma small_integers_mset:
  assumes "mset ys = mset xs" and "small_integers B xs"
  shows "small_integers B ys" and "float_sum ys = float_sum xs"
proof -
  have l: "length ys = length xs" using assms(1) by (rule mset_eq_length)
  have s: "set ys = set xs" using assms(1) by (rule mset_eq_setD)
  show y: "small_integers B ys"
    using assms(2) by (simp add: small_integers_def l list_all_iff s)
  have "sum_list (map (\<lambda>x. \<lfloor>val x\<rfloor>) ys) = sum_list (map (\<lambda>x. \<lfloor>val x\<rfloor>) xs)"
  proof -
    have "sum_mset (mset (map (\<lambda>x. \<lfloor>val x\<rfloor>) ys)) = sum_mset (mset (map (\<lambda>x. \<lfloor>val x\<rfloor>) xs))"
      using assms(1) by simp
    then show ?thesis by (simp only: sum_mset_sum_list)
  qed
  then show "float_sum ys = float_sum xs"
    by (simp only: small_integers_sum(1)[OF y] small_integers_sum(1)[OF assms(2)])
qed

lemma small_integers_shorter:
  assumes "small_integers B xs" and "set ys \<subseteq> set xs" and "length ys \<le> length xs"
  shows "small_integers B ys"
proof (cases ys)
  case Nil
  then show ?thesis by (simp add: small_integers_def)
next
  case (Cons y ys')
  from assms(1) have a: "list_all (is_int_within B) xs" and b: "int (length xs) * B < 2 ^ 52"
    by (simp_all add: small_integers_def)
  have "y \<in> set xs" using Cons assms(2) by auto
  then have "is_int_within B y" using a by (simp add: list_all_iff)
  then have "\<bar>\<lfloor>val y\<rfloor>\<bar> \<le> B" by (rule is_int_withinD(2))
  then have B0: "0 \<le> B" by linarith
  have "int (length ys) * B \<le> int (length xs) * B"
    using assms(3) B0 by (intro mult_right_mono) simp_all
  with b have "int (length ys) * B < 2 ^ 52" by linarith
  moreover have "list_all (is_int_within B) ys" using a assms(2) by (auto simp: list_all_iff)
  ultimately show ?thesis by (simp add: small_integers_def)
qed

section \<open>Ordering and maximum\<close>

lemma js_le_refl: "a \<noteq> NaN \<Longrightarrow> js_le a a"
  by (cases a) simp_all

lemma js_le_total: "a \<noteq> NaN \<Longrightarrow> b \<noteq> NaN \<Longrightarrow> js_le a b \<or> js_le b a"
  by (cases a; cases b) auto

lemma js_le_trans: "js_le a b \<Longrightarrow> js_le b c \<Longrightarrow> js_le a c"
  by (cases a; cases b; cases c) auto

lemma js_le_antisym: "js_le a b \<Longrightarrow> js_le b a \<Longrightarrow> a = b"
  by (cases a; cases b) auto

lemma js_le_not_NaN: "js_le a b \<Longrightarrow> a \<noteq> NaN \<and> b \<noteq> NaN"
  by (cases a; cases b) auto

lemma Math_max_idem [simp]: "Math_max a a = a"
  by (cases a) (simp_all add: Math_max_def)

lemma Math_max_cases:
  assumes "a \<noteq> NaN" and "b \<noteq> NaN"
  shows "(Math_max a b = a \<or> Math_max a b = b) \<and> js_le a (Math_max a b) \<and> js_le b (Math_max a b)"
  using assms js_le_total[OF assms] js_le_refl by (auto simp: Math_max_def)

lemma fullMarks_or_100_not_NaN [simp]: "fullMarks_or_100 fm \<noteq> NaN"
  by (simp add: fullMarks_or_100_def split: option.splits)

lemma foldl_Math_max:
  assumes "a \<noteq> NaN" and "\<forall>x \<in> set xs. x \<noteq> NaN"
  shows "foldl Math_max a xs \<in> insert a (set xs) \<and> js_le a (foldl Math_max a xs) \<and>
         (\<forall>x \<in> set xs. js_le x (foldl Math_max a xs))"
  using assms
proof (induction xs arbitrary: a)
  case Nil
  then show ?case by (simp add: js_le_refl)
next
  case (Cons x xs)
  then have x: "x \<noteq> NaN" and xs: "\<forall>y \<in> set xs. y \<noteq> NaN" by simp_all
  note m = Math_max_cases[OF Cons.prems(1) x]
  have n: "Math_max a x \<noteq> NaN" using m Cons.prems(1) x by auto
  note ih = Cons.IH[OF n xs]
  let ?r = "foldl Math_max (Math_max a x) xs"
  have 1: "?r \<in> insert a (set (x # xs))" using ih m by auto
  have 2: "js_le a ?r" using ih m js_le_trans by blast
  have 3: "js_le x ?r" using ih m js_le_trans by blast
  show ?case using 1 2 3 ih by simp
qed

lemma running_max_is_maximum:
  assumes "xs \<noteq> []" and "\<forall>x \<in> set xs. x \<noteq> NaN"
  shows "running_max xs \<in> set xs" and "\<forall>x \<in> set xs. js_le x (running_max xs)"
proof -
  from assms(1) obtain a ys where xs: "xs = a # ys" by (cases xs) auto
  have "a \<noteq> NaN" "\<forall>x \<in> set ys. x \<noteq> NaN" using assms(2) xs by simp_all
  from foldl_Math_max[OF this]
  show "running_max xs \<in> set xs" and "\<forall>x \<in> set xs. js_le x (running_max xs)"
    by (simp_all add: running_max_def xs)
qed

lemma maximum_unique:
  assumes "m \<in> set xs" and "\<forall>x \<in> set xs. js_le x m"
    and "m' \<in> set xs" and "\<forall>x \<in> set xs. js_le x m'"
  shows "m = m'"
  using assms js_le_antisym by blast

lemma running_max_snoc:
  "running_max (xs @ [x]) = (if xs = [] then x else Math_max (running_max xs) x)"
  by (cases xs) (simp_all add: running_max_def)

lemma float_sum_snoc: "float_sum (xs @ [x]) = js_add (float_sum xs) x"
  by (simp add: float_sum_def)

section \<open>The loops in closed form\<close>

lemma foldl_score:
  "foldl (\<lambda>sum sub. js_add sum (score sub)) a subs = foldl js_add a (map score subs)"
  by (induction subs arbitrary: a) simp_all

lemma calculateAverageScore_Some:
  "calculateAverageScore (Some subs) =
     (if subs = [] then Fin 0
      else Math_round (js_divide (float_sum (map score subs)) (length subs)))"
  by (simp add: calculateAverageScore_def foldl_score float_sum_def)

lemma foldl_addResult:
  "foldl (addResult lib) st rs =
     \<lparr>totalObtainedSum = foldl js_add (totalObtainedSum st) (map totalObtained rs),
      totalPossibleSum = foldl js_add (totalPossibleSum st) (map totalPossible rs),
      subjectMap = foldl (addSubject lib) (subjectMap st) (allSubjects rs)\<rparr>"
proof (induction rs arbitrary: st)
  case Nil
  show ?case by (simp add: allSubjects_def)
next
  case (Cons r rs)
  show ?case
    unfolding foldl_Cons Cons.IH by (simp add: addResult_def allSubjects_def)
qed

lemma aggregate_eq:
  "aggregate lib rs =
     \<lparr>totalObtainedSum = float_sum (map totalObtained rs),
      totalPossibleSum = float_sum (map totalPossible rs),
      subjectMap = foldl (addSubject lib) [] (allSubjects rs)\<rparr>"
  by (simp add: aggregate_def foldl_addResult float_sum_def)

lemma map_of_addSubject:
  "map_of (addSubject lib m x) k =
     (if k = normKey lib (subject x)
      then Some (case map_of m k of
                   Some v \<Rightarrow> \<lparr>acc_total = js_add (acc_total v) (score x),
                              acc_count = acc_count v + 1,
                              acc_fullMarks = Math_max (acc_fullMarks v) (fullMarks_or_100 (fullMarks x))\<rparr>
                 | None \<Rightarrow> \<lparr>acc_total = js_add (Fin 0) (score x), acc_count = 1,
                             acc_fullMarks = fullMarks_or_100 (fullMarks x)\<rparr>)
      else map_of m k)"
  by (simp add: addSubject_def Let_def update_conv split: option.splits)

lemma distinct_addSubject:
  "distinct (map fst m) \<Longrightarrow> distinct (map fst (addSubject lib m x))"
  by (simp add: addSubject_def Let_def distinct_update)

lemma keys_addSubject:
  "fst ` set (addSubject lib m x) = insert (normKey lib (subject x)) (fst ` set m)"
  by (simp add: addSubject_def Let_def dom_update)

lemma distinct_subjectMap: "distinct (map fst (foldl (addSubject lib) [] subs))"
  by (induction subs rule: rev_induct) (simp_all add: distinct_addSubject)

lemma keys_subjectMap:
  "fst ` set (foldl (addSubject lib) [] subs) = (\<lambda>s. normKey lib (subject s)) ` set subs"
  by (induction subs rule: rev_induct) (simp_all add: keys_addSubject)

lemma contributors_snoc:
  "contributors lib k (xs @ [x]) =
     (if normKey lib (subject x) = k then contributors lib k xs @ [x] else contributors lib k xs)"
  by (simp add: contributors_def)

lemma groupAcc_snoc_other:
  "normKey lib (subject x) \<noteq> k \<Longrightarrow> groupAcc lib k (xs @ [x]) = groupAcc lib k xs"
  by (simp add: groupAcc_def contributors_snoc)

lemma groupAcc_snoc_first:
  "normKey lib (subject x) = k \<Longrightarrow> contributors lib k xs = [] \<Longrightarrow>
   groupAcc lib k (xs @ [x]) =
     \<lparr>acc_total = js_add (Fin 0) (score x), acc_count = 1,
      acc_fullMarks = fullMarks_or_100 (fullMarks x)\<rparr>"
  by (simp add: groupAcc_def contributors_snoc float_sum_def running_max_def)

lemma groupAcc_snoc_more:
  assumes "normKey lib (subject x) = k" and "contributors lib k xs \<noteq> []"
  shows "groupAcc lib k (xs @ [x]) =
     \<lparr>acc_total = js_add (acc_total (groupAcc lib k xs)) (score x),
      acc_count = acc_count (groupAcc lib k xs) + 1,
      acc_fullMarks =
        Math_max (acc_fullMarks (groupAcc lib k xs)) (fullMarks_or_100 (fullMarks x))\<rparr>"
  using assms by (simp add: groupAcc_def contributors_snoc float_sum_snoc running_max_snoc)

lemma map_of_subjectMap:
  "map_of (foldl (addSubject lib) [] subs) k =
     (if contributors lib k subs = [] then None else Some (groupAcc lib k subs))"
proof (induction subs rule: rev_induct)
  case Nil
  show ?case by (simp add: contributors_def)
next
  case (snoc x xs)
  show ?case
  proof (cases "normKey lib (subject x) = k")
    case False
    then show ?thesis
      using snoc.IH by (simp add: map_of_addSubject contributors_snoc groupAcc_snoc_other)
  next
    case True
    show ?thesis
    proof (cases "contributors lib k xs = []")
      case True
      with \<open>normKey lib (subject x) = k\<close> snoc.IH show ?thesis
        by (simp add: map_of_addSubject contributors_snoc groupAcc_snoc_first)
    next
      case False
      with \<open>normKey lib (subject x) = k\<close> snoc.IH show ?thesis
        by (simp add: map_of_addSubject contributors_snoc groupAcc_snoc_more)
    qed
  qed
qed

lemma subjectMap_pairs:
  assumes "(k, a) \<in> set (foldl (addSubject lib) [] subs)"
  shows "contributors lib k subs \<noteq> []" and "a = groupAcc lib k subs" and "1 \<le> acc_count a"
proof -
  have "map_of (foldl (addSubject lib) [] subs) k = Some a"
    using assms distinct_subjectMap[of lib subs] by simp
  then show c: "contributors lib k subs \<noteq> []" and a: "a = groupAcc lib k subs"
    by (auto simp: map_of_subjectMap split: if_splits)
  have "1 \<le> length (contributors lib k subs)"
    using c by (cases "contributors lib k subs") simp_all
  then show "1 \<le> acc_count a" using a by (simp add: groupAcc_def)
qed

section \<open>What calculateClassAverage returns\<close>

lemma calculateClassAverage_empty:
  "calculateClassAverage lib [] = Inl (Error (lit ''No results to average''))"
  by (simp add: calculateClassAverage_def)

lemma calculateClassAverage_eq:
  "rs \<noteq> [] \<Longrightarrow>
   calculateClassAverage lib rs =
     Inr \<lparr>studentName = lit ''Class Average'',
          subjects = map (avgSubject lib) (subjectMap (aggregate lib rs)),
          totalObtained =
            Math_round (js_divide (float_sum (map totalObtained rs)) (length rs)),
          totalPossible =
            Math_round (js_divide (float_sum (map totalPossible rs)) (length rs)),
          percentage =
            calculateAverageScore (Some (map (avgSubject lib) (subjectMap (aggregate lib rs)))),
          grade = lit '''',
          summary = lit ''This represents the aggregated performance of ''
            @ nat_toString (length rs)
            @ lit '' students. The class average score is ''
            @ numberToString lib
                (calculateAverageScore
                   (Some (map (avgSubject lib) (subjectMap (aggregate lib rs)))))
            @ lit ''.'',
          feedback = classFeedback\<rparr>"
  by (simp add: calculateClassAverage_def Let_def aggregate_eq)

lemma calculateClassAverage_Inr:
  assumes "calculateClassAverage lib rs = Inr r"
  shows "rs \<noteq> []"
    and "subjects r = map (avgSubject lib) (subjectMap (aggregate lib rs))"
    and "totalObtained r = Math_round (js_divide (float_sum (map totalObtained rs)) (length rs))"
    and "totalPossible r = Math_round (js_divide (float_sum (map totalPossible rs)) (length rs))"
    and "percentage r = calculateAverageScore (Some (subjects r))"
    and "studentName r = lit ''Class Average''"
    and "grade r = lit ''''"
    and "summary r = lit ''This represents the aggregated performance of ''
            @ nat_toString (length rs)
            @ lit '' students. The class average score is ''
            @ numberToString lib (percentage r) @ lit ''.''"
    and "feedback r = classFeedback"
proof -
  show ne: "rs \<noteq> []"
    using assms calculateClassAverage_empty by (cases rs) simp_all
  note e = assms[unfolded calculateClassAverage_eq[OF ne] sum.inject, symmetric]
  show s: "subjects r = map (avgSubject lib) (subjectMap (aggregate lib rs))"
    by (subst e) (simp only: AnalysisResult.simps)
  show "totalObtained r = Math_round (js_divide (float_sum (map totalObtained rs)) (length rs))"
    by (subst e) (simp only: AnalysisResult.simps)
  show "totalPossible r = Math_round (js_divide (float_sum (map totalPossible rs)) (length rs))"
    by (subst e) (simp only: AnalysisResult.simps)
  have p: "percentage r
      = calculateAverageScore (Some (map (avgSubject lib) (subjectMap (aggregate lib rs))))"
    by (subst e) (simp only: AnalysisResult.simps)
  show p': "percentage r = calculateAverageScore (Some (subjects r))"
    unfolding p s by (rule refl)
  show "studentName r = lit ''Class Average''"
    by (subst e) (simp only: AnalysisResult.simps)
  show "grade r = lit ''''"
    by (subst e) (simp only: AnalysisResult.simps)
  show "feedback r = classFeedback"
    by (subst e) (simp only: AnalysisResult.simps)
  have "summary r = lit ''This represents the aggregated performance of ''
            @ nat_toString (length rs)
            @ lit '' students. The class average score is ''
            @ numberToString lib
                (calculateAverageScore
                   (Some (map (avgSubject lib) (subjectMap (aggregate lib rs)))))
            @ lit ''.''"
    by (subst e) (simp only: AnalysisResult.simps)
  then show "summary r = lit ''This represents the aggregated performance of ''
            @ nat_toString (length rs)
            @ lit '' students. The class average score is ''
            @ numberToString lib (percentage r) @ lit ''.''"
    unfolding p .
qed

lemma calculateClassAverage_nonempty:
  "rs \<noteq> [] \<Longrightarrow> \<exists>r. calculateClassAverage lib rs = Inr r"
  using calculateClassAverage_eq by blast

lemma subjectMap_aggregate:
  "subjectMap (aggregate lib rs) = foldl (addSubject lib) [] (allSubjects rs)"
  by (simp add: aggregate_eq)

section \<open>Evaluating the arithmetic\<close>

lemma fl_0: "fl 0 = Fin 0"
  by (simp add: fl_def)

lemma fl_1: "fl 1 = Fin 1"
  using fl_int[of 1] by simp

lemma fl_numeral: "(numeral n :: int) \<le> 2 ^ 53 \<Longrightarrow> fl (numeral n) = Fin (numeral n)"
  using fl_int[of "numeral n"] by simp

lemma floor_log2_eqI:
  assumes "2 powi e \<le> x" and "x < 2 powi (e + 1)"
  shows "floor_log2 x = e"
proof -
  have x: "0 < x" using assms(1) two_powi_pos[of e] by linarith
  note b = floor_log2_bounds[OF x]
  have "(2::rat) powi e < 2 powi (floor_log2 x + 1)" using assms(1) b(2) by linarith
  then have 1: "e < floor_log2 x + 1" by (rule two_powi_less_imp)
  have "(2::rat) powi floor_log2 x < 2 powi (e + 1)" using assms(2) b(1) by linarith
  then have 2: "floor_log2 x < e + 1" by (rule two_powi_less_imp)
  from 1 2 show ?thesis by linarith
qed

lemma round_half_even_nearest:
  assumes "\<bar>y - of_int m\<bar> < 1 / 2"
  shows "round_half_even y = m"
proof -
  have b: "of_int m - 1 / 2 < y" "y < of_int m + 1 / 2"
    using assms unfolding abs_less_iff by linarith+
  have d: "(of_int (m - 1) :: rat) = of_int m - 1" by simp
  show ?thesis
  proof (cases "of_int m \<le> y")
    case True
    have "y < of_int m + 1" using b by linarith
    with True have "\<lfloor>y\<rfloor> = m" by (intro floor_unique)
    moreover have "y - of_int m < 1 / 2" using b by linarith
    ultimately show ?thesis by (simp add: round_half_even_def Let_def)
  next
    case False
    have "of_int (m - 1) \<le> y" unfolding d using b by linarith
    moreover have "y < of_int (m - 1) + 1" unfolding d using False by linarith
    ultimately have "\<lfloor>y\<rfloor> = m - 1" by (intro floor_unique)
    moreover have "1 / 2 < y - of_int (m - 1)" unfolding d using b by linarith
    ultimately show ?thesis by (simp add: round_half_even_def Let_def)
  qed
qed

lemma round_half_even_tie:
  assumes "y = of_int m + 1 / 2"
  shows "round_half_even y = (if even m then m else m + 1)"
proof -
  have "\<lfloor>y\<rfloor> = m" unfolding assms by (simp add: floor_eq_iff)
  then show ?thesis by (simp add: round_half_even_def Let_def assms)
qed

text \<open>
  A certificate for the double nearest to \<open>x\<close>: the exponent \<open>e\<close> of its last place and
  its integer significand \<open>m\<close>; in a tie, the integer \<open>f\<close> below the scaled value.
\<close>

lemma fl_exponent_eqI:
  assumes "2 powi (e + 52) \<le> \<bar>x\<bar>" and "\<bar>x\<bar> < 2 powi (e + 53)" and "- 1074 \<le> e"
  shows "fl_exponent x = e"
proof -
  have "floor_log2 \<bar>x\<bar> = e + 52"
    using assms(1,2) by (intro floor_log2_eqI) (simp_all add: add.commute add.left_commute)
  then show ?thesis using assms(3) by (simp add: fl_exponent_def)
qed

lemma fl_cert:
  assumes "2 powi (e + 52) \<le> \<bar>x\<bar>" and "\<bar>x\<bar> < 2 powi (e + 53)" and "- 1074 \<le> e"
    and "\<bar>x / 2 powi e - of_int m\<bar> < 1 / 2"
    and "z = of_int m * 2 powi e"
    and "\<bar>z\<bar> < overflow_threshold"
  shows "fl x = Fin z"
proof -
  have ax: "0 < \<bar>x\<bar>" using assms(1) two_powi_pos[of "e + 52"] by linarith
  then have nz: "x \<noteq> 0" by simp
  note e = fl_exponent_eqI[OF assms(1,2,3)]
  have r: "round_half_even (x / 2 powi e) = m" using assms(4) by (rule round_half_even_nearest)
  show ?thesis
    using nz assms(6) unfolding assms(5)
    by (simp add: fl_unfold e r Let_def abs_less_iff not_le)
qed

lemma fl_cert_tie:
  assumes "2 powi (e + 52) \<le> \<bar>x\<bar>" and "\<bar>x\<bar> < 2 powi (e + 53)" and "- 1074 \<le> e"
    and "x / 2 powi e = of_int f + 1 / 2"
    and "m = (if even f then f else f + 1)"
    and "z = of_int m * 2 powi e"
    and "\<bar>z\<bar> < overflow_threshold"
  shows "fl x = Fin z"
proof -
  have ax: "0 < \<bar>x\<bar>" using assms(1) two_powi_pos[of "e + 52"] by linarith
  then have nz: "x \<noteq> 0" by simp
  note e = fl_exponent_eqI[OF assms(1,2,3)]
  have r: "round_half_even (x / 2 powi e) = m"
    using round_half_even_tie[OF assms(4)] assms(5) by simp
  show ?thesis
    using nz assms(7) unfolding assms(6)
    by (simp add: fl_unfold e r Let_def abs_less_iff not_le)
qed

section \<open>Decimal marks, evaluated step by step\<close>

lemma marks_444_602_328_526:
  "Math_round (js_divide (float_sum [fl (444 / 10), fl (602 / 10), fl (328 / 10), fl (526 / 10)]) 4) = Fin 47"
  "exact_rounded_mean [fl (444 / 10), fl (602 / 10), fl (328 / 10), fl (526 / 10)] = 48"
proof -
  have al0: "fl (444 / 10) = Fin (6248744482976563 / 140737488355328)"
    by (rule fl_cert[where e = "- 47" and m = 6248744482976563])
       (simp_all add: overflow_threshold_def power_int_minus)
  have al1: "fl (602 / 10) = Fin (4236198399495373 / 70368744177664)"
    by (rule fl_cert[where e = "- 47" and m = 8472396798990746])
       (simp_all add: overflow_threshold_def power_int_minus)
  have al2: "fl (328 / 10) = Fin (2308094809027379 / 70368744177664)"
    by (rule fl_cert[where e = "- 47" and m = 4616189618054758])
       (simp_all add: overflow_threshold_def power_int_minus)
  have al3: "fl (526 / 10) = Fin (7402791887490253 / 140737488355328)"
    by (rule fl_cert[where e = "- 47" and m = 7402791887490253])
       (simp_all add: overflow_threshold_def power_int_minus)
  have as0: "js_add (Fin (0)) (Fin (6248744482976563 / 140737488355328)) = Fin (6248744482976563 / 140737488355328)"
    unfolding js_add.simps
    by (rule fl_cert[where e = "- 47" and m = 6248744482976563])
       (simp_all add: overflow_threshold_def power_int_minus)
  have as1: "js_add (Fin (6248744482976563 / 140737488355328)) (Fin (4236198399495373 / 70368744177664)) = Fin (3680285320491827 / 35184372088832)"
    unfolding js_add.simps
    by (rule fl_cert_tie[where e = "- 46" and f = 7360570640983654 and m = 7360570640983654])
       (simp_all add: overflow_threshold_def power_int_minus)
  have as2: "js_add (Fin (3680285320491827 / 35184372088832)) (Fin (2308094809027379 / 70368744177664)) = Fin (1208583181251379 / 8796093022208)"
    unfolding js_add.simps
    by (rule fl_cert_tie[where e = "- 45" and f = 4834332725005516 and m = 4834332725005516])
       (simp_all add: overflow_threshold_def power_int_minus)
  have as3: "js_add (Fin (1208583181251379 / 8796093022208)) (Fin (7402791887490253 / 140737488355328)) = Fin (6685030696878079 / 35184372088832)"
    unfolding js_add.simps
    by (rule fl_cert[where e = "- 45" and m = 6685030696878079])
       (simp_all add: overflow_threshold_def power_int_minus)
  have ad: "js_divide (Fin (6685030696878079 / 35184372088832)) 4 = Fin (6685030696878079 / 140737488355328)"
  proof -
    have "fl ((6685030696878079 / 35184372088832) / 4) = Fin (6685030696878079 / 140737488355328)"
      by (rule fl_cert[where e = "- 47" and m = 6685030696878079])
       (simp_all add: overflow_threshold_def power_int_minus)
    then show ?thesis by simp
  qed
  have ar: "Math_round (Fin (6685030696878079 / 140737488355328)) = Fin 47"
  proof -
    have "\<lfloor>(6685030696878079 / 140737488355328 :: rat) + 1 / 2\<rfloor> = 47" by (rule floor_unique) simp_all
    then show ?thesis by simp
  qed
  show "Math_round (js_divide (float_sum [fl (444 / 10), fl (602 / 10), fl (328 / 10), fl (526 / 10)]) 4) = Fin 47"
    by (simp only: float_sum_def foldl_Cons foldl_Nil al0 al1 al2 al3 as0 as1 as2 as3 ad ar)
  have "exact_rounded_mean [Fin (6248744482976563 / 140737488355328), Fin (4236198399495373 / 70368744177664), Fin (2308094809027379 / 70368744177664), Fin (7402791887490253 / 140737488355328)] = 48"
    unfolding exact_rounded_mean_def by (rule floor_unique) (simp_all add: val_def)
  then show "exact_rounded_mean [fl (444 / 10), fl (602 / 10), fl (328 / 10), fl (526 / 10)] = 48"
    by (simp only: al0 al1 al2 al3)
qed

lemma marks_736_508_961:
  "Math_round (js_divide (float_sum [fl (736 / 10), fl (508 / 10), fl (961 / 10)]) 3) = Fin 74"
  "exact_rounded_mean [fl (736 / 10), fl (508 / 10), fl (961 / 10)] = 73"
proof -
  have cl0: "fl (736 / 10) = Fin (2589569785738035 / 35184372088832)"
    by (rule fl_cert[where e = "- 46" and m = 5179139571476070])
       (simp_all add: overflow_threshold_def power_int_minus)
  have cl1: "fl (508 / 10) = Fin (3574732204225331 / 70368744177664)"
    by (rule fl_cert[where e = "- 47" and m = 7149464408450662])
       (simp_all add: overflow_threshold_def power_int_minus)
  have cl2: "fl (961 / 10) = Fin (3381218157736755 / 35184372088832)"
    by (rule fl_cert[where e = "- 46" and m = 6762436315473510])
       (simp_all add: overflow_threshold_def power_int_minus)
  have cs0: "js_add (Fin (0)) (Fin (2589569785738035 / 35184372088832)) = Fin (2589569785738035 / 35184372088832)"
    unfolding js_add.simps
    by (rule fl_cert[where e = "- 46" and m = 5179139571476070])
       (simp_all add: overflow_threshold_def power_int_minus)
  have cs1: "js_add (Fin (2589569785738035 / 35184372088832)) (Fin (3574732204225331 / 70368744177664)) = Fin (8753871775701401 / 70368744177664)"
    unfolding js_add.simps
    by (rule fl_cert[where e = "- 46" and m = 8753871775701401])
       (simp_all add: overflow_threshold_def power_int_minus)
  have cs2: "js_add (Fin (8753871775701401 / 70368744177664)) (Fin (3381218157736755 / 35184372088832)) = Fin (441 / 2)"
    unfolding js_add.simps
    by (rule fl_cert_tie[where e = "- 45" and f = 7758154045587455 and m = 7758154045587456])
       (simp_all add: overflow_threshold_def power_int_minus)
  have cd: "js_divide (Fin (441 / 2)) 3 = Fin (147 / 2)"
  proof -
    have "fl ((441 / 2) / 3) = Fin (147 / 2)"
      by (rule fl_cert[where e = "- 46" and m = 5172102697058304])
       (simp_all add: overflow_threshold_def power_int_minus)
    then show ?thesis by simp
  qed
  have cr: "Math_round (Fin (147 / 2)) = Fin 74"
  proof -
    have "\<lfloor>(147 / 2 :: rat) + 1 / 2\<rfloor> = 74" by (rule floor_unique) simp_all
    then show ?thesis by simp
  qed
  show "Math_round (js_divide (float_sum [fl (736 / 10), fl (508 / 10), fl (961 / 10)]) 3) = Fin 74"
    by (simp only: float_sum_def foldl_Cons foldl_Nil cl0 cl1 cl2 cs0 cs1 cs2 cd cr)
  have "exact_rounded_mean [Fin (2589569785738035 / 35184372088832), Fin (3574732204225331 / 70368744177664), Fin (3381218157736755 / 35184372088832)] = 73"
    unfolding exact_rounded_mean_def by (rule floor_unique) (simp_all add: val_def)
  then show "exact_rounded_mean [fl (736 / 10), fl (508 / 10), fl (961 / 10)] = 73"
    by (simp only: cl0 cl1 cl2)
qed

lemma marks_508_961_736:
  "Math_round (js_divide (float_sum [fl (508 / 10), fl (961 / 10), fl (736 / 10)]) 3) = Fin 73"
  "exact_rounded_mean [fl (508 / 10), fl (961 / 10), fl (736 / 10)] = 73"
proof -
  have dl0: "fl (508 / 10) = Fin (3574732204225331 / 70368744177664)"
    by (rule fl_cert[where e = "- 47" and m = 7149464408450662])
       (simp_all add: overflow_threshold_def power_int_minus)
  have dl1: "fl (961 / 10) = Fin (3381218157736755 / 35184372088832)"
    by (rule fl_cert[where e = "- 46" and m = 6762436315473510])
       (simp_all add: overflow_threshold_def power_int_minus)
  have dl2: "fl (736 / 10) = Fin (2589569785738035 / 35184372088832)"
    by (rule fl_cert[where e = "- 46" and m = 5179139571476070])
       (simp_all add: overflow_threshold_def power_int_minus)
  have ds0: "js_add (Fin (0)) (Fin (3574732204225331 / 70368744177664)) = Fin (3574732204225331 / 70368744177664)"
    unfolding js_add.simps
    by (rule fl_cert[where e = "- 47" and m = 7149464408450662])
       (simp_all add: overflow_threshold_def power_int_minus)
  have ds1: "js_add (Fin (3574732204225331 / 70368744177664)) (Fin (3381218157736755 / 35184372088832)) = Fin (1292146064962355 / 8796093022208)"
    unfolding js_add.simps
    by (rule fl_cert_tie[where e = "- 45" and f = 5168584259849420 and m = 5168584259849420])
       (simp_all add: overflow_threshold_def power_int_minus)
  have ds2: "js_add (Fin (1292146064962355 / 8796093022208)) (Fin (2589569785738035 / 35184372088832)) = Fin (7758154045587455 / 35184372088832)"
    unfolding js_add.simps
    by (rule fl_cert[where e = "- 45" and m = 7758154045587455])
       (simp_all add: overflow_threshold_def power_int_minus)
  have dd: "js_divide (Fin (7758154045587455 / 35184372088832)) 3 = Fin (5172102697058303 / 70368744177664)"
  proof -
    have "fl ((7758154045587455 / 35184372088832) / 3) = Fin (5172102697058303 / 70368744177664)"
      by (rule fl_cert[where e = "- 46" and m = 5172102697058303])
       (simp_all add: overflow_threshold_def power_int_minus)
    then show ?thesis by simp
  qed
  have dr: "Math_round (Fin (5172102697058303 / 70368744177664)) = Fin 73"
  proof -
    have "\<lfloor>(5172102697058303 / 70368744177664 :: rat) + 1 / 2\<rfloor> = 73" by (rule floor_unique) simp_all
    then show ?thesis by simp
  qed
  show "Math_round (js_divide (float_sum [fl (508 / 10), fl (961 / 10), fl (736 / 10)]) 3) = Fin 73"
    by (simp only: float_sum_def foldl_Cons foldl_Nil dl0 dl1 dl2 ds0 ds1 ds2 dd dr)
  have "exact_rounded_mean [Fin (3574732204225331 / 70368744177664), Fin (3381218157736755 / 35184372088832), Fin (2589569785738035 / 35184372088832)] = 73"
    unfolding exact_rounded_mean_def by (rule floor_unique) (simp_all add: val_def)
  then show "exact_rounded_mean [fl (508 / 10), fl (961 / 10), fl (736 / 10)] = 73"
    by (simp only: dl0 dl1 dl2)
qed

section \<open>Evaluating the model\<close>

lemma Math_round_of_int: "Math_round (Fin (of_int i)) = Fin (of_int i)"
proof -
  have "\<lfloor>(of_int i :: rat) + 1 / 2\<rfloor> = i" by (rule floor_unique) linarith+
  then show ?thesis by simp
qed

lemma Math_round_numeral: "Math_round (Fin (numeral n)) = Fin (numeral n)"
  using Math_round_of_int[of "numeral n"] by simp

lemma Math_round_0: "Math_round (Fin 0) = Fin 0"
  using Math_round_of_int[of 0] by simp

lemmas number_simps = fl_0 fl_1 fl_numeral Math_round_numeral Math_round_0

lemmas string_defs =
  lit_def trim_def isWhiteSpace_def charAt0_def slice1_def latin1_def latin1_toLowerCase_def
  latin1_toUpperCase_def normKey_def

lemmas model_defs =
  calculateClassAverage_def aggregate_def addResult_def addSubject_def
  fullMarks_or_100_def avgSubject_def calculateAverageScore_def Let_def

lemmas example_defs =
  mkResult_def oneSubject_def mathStudents_def allSubjects_def contributors_def groupAcc_def

lemma scenario_keys:
  "normKey latin1 (lit ''Math'') = lit ''math''"
  "normKey latin1 (lit ''math'') = lit ''math''"
  "normKey latin1 (lit ''Science'') = lit ''science''"
  by (simp_all add: string_defs)

lemma scenario_names:
  "toUpperCase latin1 (charAt0 (lit ''math'')) @ slice1 (lit ''math'') = lit ''Math''"
  "toUpperCase latin1 (charAt0 (lit ''science'')) @ slice1 (lit ''science'') = lit ''Science''"
  by (simp_all add: string_defs)

lemma lit_neq: "lit ''math'' \<noteq> lit ''science''" "lit ''science'' \<noteq> lit ''math''"
  by (simp_all add: lit_def)

lemma scenario_result: "calculateClassAverage latin1 scenario = Inr scenario_average"
proof -
  have n: "nat_toString (Suc (Suc 0)) = lit ''2''" by (simp add: nat_toString.simps lit_def)
  have p: "numberToString latin1 (Fin 75) = lit ''75''"
    by (simp add: latin1_def integer_toString_def nat_toString.simps lit_def)
  have l: "lit ''This represents the aggregated performance of '' @ lit ''2''
      @ lit '' students. The class average score is '' @ lit ''75'' @ lit ''.''
    = lit ''This represents the aggregated performance of 2 students. The class average score is 75.''"
    by (simp add: lit_def)
  show ?thesis
    unfolding scenario_def scenario_average_def mkResult_def
    by (simp add: model_defs number_simps scenario_keys scenario_names lit_neq n p l
          del: Math_round.simps)
qed

section \<open>The two-student scenario\<close>

text \<open>
  Claim C4. Student one has Math 80 of 100 and Science 90 of 100; student two has math 60
  with no \<open>fullMarks\<close> and Science 70 of 100. Whatever the other fields of the two records
  are, \<open>calculateClassAverage\<close> returns exactly the two entries Math (score 70, fullMarks
  100) and Science (score 80, fullMarks 100), and the percentage 75.
\<close>

theorem two_student_scenario:
  "\<exists>r. calculateClassAverage latin1
      [\<lparr>studentName = n1,
        subjects = [\<lparr>subject = lit ''Math'', score = Fin 80, fullMarks = Some (Fin 100)\<rparr>,
                    \<lparr>subject = lit ''Science'', score = Fin 90, fullMarks = Some (Fin 100)\<rparr>],
        totalObtained = o1, totalPossible = p1, percentage = q1, grade = g1,
        summary = s1, feedback = f1\<rparr>,
       \<lparr>studentName = n2,
        subjects = [\<lparr>subject = lit ''math'', score = Fin 60, fullMarks = None\<rparr>,
                    \<lparr>subject = lit ''Science'', score = Fin 70, fullMarks = Some (Fin 100)\<rparr>],
        totalObtained = o2, totalPossible = p2, percentage = q2, grade = g2,
        summary = s2, feedback = f2\<rparr>] = Inr r \<and>
     subjects r = [\<lparr>subject = lit ''Math'', score = Fin 70, fullMarks = Some (Fin 100)\<rparr>,
                   \<lparr>subject = lit ''Science'', score = Fin 80, fullMarks = Some (Fin 100)\<rparr>] \<and>
     percentage r = Fin 75"
  by (simp add: model_defs number_simps scenario_keys scenario_names lit_neq
        del: Math_round.simps)

section \<open>The averaged fullMarks\<close>

text \<open>
  The statement of claim C2 fails where a contributor's \<open>fullMarks\<close> is present and 0:
  for the single subject score Art with \<open>fullMarks = 0\<close> the averaged entry has
  \<open>fullMarks = 100\<close>, while the only contributor's value, with 100 only for an absent one,
  is 0.
\<close>

theorem fullMarks_spec_counterexample:
  "(case calculateClassAverage latin1
           [mkResult ''Ann'' [oneSubject ''Art'' (Fin 5) (Some (Fin 0))] (Fin 5) (Fin 0)] of
      Inl err \<Rightarrow> None | Inr r \<Rightarrow> Some (map fullMarks (subjects r))) = Some [Some (Fin 100)] \<and>
   map (\<lambda>s. spec_fullMarks (fullMarks s))
     (contributors latin1 (lit ''art'')
        (allSubjects [mkResult ''Ann'' [oneSubject ''Art'' (Fin 5) (Some (Fin 0))] (Fin 5) (Fin 0)]))
     = [Fin 0]"
proof -
  have k: "normKey latin1 (lit ''Art'') = lit ''art''" by (simp add: string_defs)
  show ?thesis
    by (simp add: calculateClassAverage_eq subjectMap_aggregate example_defs k addSubject_def
          avgSubject_def fullMarks_or_100_def spec_fullMarks_def Math_max_def)
qed

lemma le_fullMarks_or_100:
  "fullMarks s = Some v \<Longrightarrow> v \<noteq> NaN \<Longrightarrow> js_le v (fullMarks_or_100 (fullMarks s))"
  by (cases v) (simp_all add: fullMarks_or_100_def)

text \<open>
  Claim C2, amended. The averaged entries are built one from each pair of the subject map,
  in its order. For every pair, the group of its key is not empty and the entry's
  \<open>fullMarks\<close> is the maximum, over the contributing subject scores, of the contributor's
  \<open>fullMarks\<close> when that is present and neither 0 nor NaN, and of 100 otherwise: it is
  the value of one of the contributors and none of them has a greater one. It is never
  less than any contributor's \<open>fullMarks\<close> value (a NaN compares with nothing).
\<close>

theorem fullMarks_is_group_max:
  assumes "calculateClassAverage lib rs = Inr r"
  shows "subjects r = map (avgSubject lib) (subjectMap (aggregate lib rs)) \<and>
         (\<forall>(k, a) \<in> set (subjectMap (aggregate lib rs)).
            fullMarks (avgSubject lib (k, a)) = Some (acc_fullMarks a) \<and>
            contributors lib k (allSubjects rs) \<noteq> [] \<and>
            acc_fullMarks a \<in> set (map (\<lambda>s. fullMarks_or_100 (fullMarks s))
                                   (contributors lib k (allSubjects rs))) \<and>
            (\<forall>s \<in> set (contributors lib k (allSubjects rs)).
               js_le (fullMarks_or_100 (fullMarks s)) (acc_fullMarks a) \<and>
               (\<forall>v. fullMarks s = Some v \<longrightarrow> v \<noteq> NaN \<longrightarrow> js_le v (acc_fullMarks a))))"
proof -
  let ?subs = "allSubjects rs"
  have "fullMarks (avgSubject lib (k, a)) = Some (acc_fullMarks a) \<and>
        contributors lib k ?subs \<noteq> [] \<and>
        acc_fullMarks a \<in> set (map (\<lambda>s. fullMarks_or_100 (fullMarks s)) (contributors lib k ?subs)) \<and>
        (\<forall>s \<in> set (contributors lib k ?subs).
           js_le (fullMarks_or_100 (fullMarks s)) (acc_fullMarks a) \<and>
           (\<forall>v. fullMarks s = Some v \<longrightarrow> v \<noteq> NaN \<longrightarrow> js_le v (acc_fullMarks a)))"
    if ka: "(k, a) \<in> set (subjectMap (aggregate lib rs))" for k a
  proof -
    let ?C = "contributors lib k ?subs"
    let ?F = "map (\<lambda>s. fullMarks_or_100 (fullMarks s)) ?C"
    from ka have "(k, a) \<in> set (foldl (addSubject lib) [] ?subs)"
      by (simp only: subjectMap_aggregate)
    note p = subjectMap_pairs[OF this]
    have ne: "?F \<noteq> []" using p(1) by simp
    have nn: "\<forall>x \<in> set ?F. x \<noteq> NaN" by auto
    have m: "acc_fullMarks a = running_max ?F" by (simp add: p(2) groupAcc_def)
    note mx = running_max_is_maximum[OF ne nn, folded m]
    have u: "\<forall>s \<in> set ?C. js_le (fullMarks_or_100 (fullMarks s)) (acc_fullMarks a)"
      using mx(2) by simp
    have w: "\<forall>s \<in> set ?C. \<forall>v. fullMarks s = Some v \<longrightarrow> v \<noteq> NaN \<longrightarrow> js_le v (acc_fullMarks a)"
    proof (intro ballI allI impI)
      fix s v assume "s \<in> set ?C" "fullMarks s = Some v" "v \<noteq> NaN"
      then show "js_le v (acc_fullMarks a)"
        using le_fullMarks_or_100[of s v] u js_le_trans by blast
    qed
    have f: "fullMarks (avgSubject lib (k, a)) = Some (acc_fullMarks a)"
      by (simp add: avgSubject_def)
    from f p(1) mx(1) u w show ?thesis by blast
  qed
  then show ?thesis
    using calculateClassAverage_Inr(2)[OF assms] by blast
qed

theorem fullMarks_is_group_max_witness:
  "calculateClassAverage latin1 scenario = Inr scenario_average \<and>
   map fst (subjectMap (aggregate latin1 scenario)) = [lit ''math'', lit ''science''] \<and>
   map (\<lambda>kv. fullMarks (avgSubject latin1 kv)) (subjectMap (aggregate latin1 scenario))
     = [Some (Fin 100), Some (Fin 100)] \<and>
   map (\<lambda>s. fullMarks_or_100 (fullMarks s)) (contributors latin1 (lit ''math'') (allSubjects scenario))
     = [Fin 100, Fin 100]"
proof -
  have m: "subjectMap (aggregate latin1 scenario) =
      [(lit ''math'', \<lparr>acc_total = Fin 140, acc_count = 2, acc_fullMarks = Fin 100\<rparr>),
       (lit ''science'', \<lparr>acc_total = Fin 160, acc_count = 2, acc_fullMarks = Fin 100\<rparr>)]"
    by (simp add: subjectMap_aggregate scenario_def example_defs addSubject_def scenario_keys
          lit_neq number_simps fullMarks_or_100_def Math_max_def)
  have c: "map (\<lambda>s. fullMarks_or_100 (fullMarks s))
      (contributors latin1 (lit ''math'') (allSubjects scenario)) = [Fin 100, Fin 100]"
    by (simp add: scenario_def example_defs scenario_keys lit_neq fullMarks_or_100_def)
  from fullMarks_is_group_max[OF scenario_result]
  show ?thesis using scenario_result c by (simp add: m avgSubject_def)
qed

section \<open>The empty batch\<close>

lemma handleAnalyze_try_Inr: "\<exists>st'. handleAnalyze_try lib ai images st = Inr st'"
proof (cases "fst (partition_outcomes (map (settle ai) images)) = []")
  case True
  then show ?thesis by (simp add: handleAnalyze_try_def Let_def)
next
  case False
  from calculateClassAverage_nonempty[OF False] obtain avg where
    "calculateClassAverage lib (fst (partition_outcomes (map (settle ai) images))) = Inr avg" ..
  with False show ?thesis by (simp add: handleAnalyze_try_def Let_def)
qed

text \<open>
  Claim C7. On the empty list \<open>calculateClassAverage\<close> throws (\<open>No results to
  average\<close>). On every non-empty list it returns a record with all eight fields set. The
  \<open>try\<close> block of \<open>handleAnalyze\<close> never leaves by a throw: it calls
  \<open>calculateClassAverage\<close> only on a non-empty list.
\<close>

theorem calculateClassAverage_contract:
  "calculateClassAverage lib [] = Inl (Error (lit ''No results to average'')) \<and>
   (rs \<noteq> [] \<longrightarrow>
      calculateClassAverage lib rs =
        Inr \<lparr>studentName = lit ''Class Average'',
             subjects = map (avgSubject lib) (subjectMap (aggregate lib rs)),
             totalObtained =
               Math_round (js_divide (float_sum (map totalObtained rs)) (length rs)),
             totalPossible =
               Math_round (js_divide (float_sum (map totalPossible rs)) (length rs)),
             percentage =
               calculateAverageScore
                 (Some (map (avgSubject lib) (subjectMap (aggregate lib rs)))),
             grade = lit '''',
             summary = lit ''This represents the aggregated performance of ''
               @ nat_toString (length rs)
               @ lit '' students. The class average score is ''
               @ numberToString lib
                   (calculateAverageScore
                      (Some (map (avgSubject lib) (subjectMap (aggregate lib rs)))))
               @ lit ''.'',
             feedback = classFeedback\<rparr>) \<and>
   (\<forall>ai images st. \<exists>st'. handleAnalyze_try lib ai images st = Inr st')"
  using calculateClassAverage_empty[of lib] calculateClassAverage_eq[of rs lib]
    handleAnalyze_try_Inr[of lib]
  by blast

theorem calculateClassAverage_contract_witness:
  "scenario \<noteq> [] \<and> calculateClassAverage latin1 scenario = Inr scenario_average"
proof -
  have n: "scenario \<noteq> []" by (simp add: scenario_def)
  have "calculateClassAverage latin1 scenario = Inr scenario_average"
    using calculateClassAverage_contract[of latin1 scenario] n scenario_result by simp
  with n show ?thesis by simp
qed

section \<open>The batch orchestrator\<close>

lemma settle_eq:
  "settle ai img =
     (case ai img of
        Some res \<Rightarrow> fulfilled res
      | None \<Rightarrow> rejected (Error (lit ''Failed to process marksheet. Please ensure the image is clear and try again.'')))"
  by (simp add: settle_def analyzeMarksheet_def split: option.splits)

lemma collect_settle:
  "collect (s, f) (settle ai img) =
     (case ai img of Some res \<Rightarrow> (s @ [res], f) | None \<Rightarrow> (s, f + 1))"
  by (simp add: collect_def settle_eq split: option.splits)

lemma foldl_collect:
  "foldl collect (s, f) (map (settle ai) images) =
     (s @ List.map_filter ai images, f + length (filter (\<lambda>img. ai img = None) images))"
proof (induction images arbitrary: s f)
  case Nil
  show ?case by (simp add: List.map_filter_simps)
next
  case (Cons img images)
  show ?case
    by (cases "ai img") (simp_all add: Cons.IH collect_settle List.map_filter_simps)
qed

lemma partition_outcomes_eq:
  "partition_outcomes (map (settle ai) images) =
     (List.map_filter ai images, length (filter (\<lambda>img. ai img = None) images))"
  by (simp add: partition_outcomes_def foldl_collect)

lemma map_filter_Nil_iff:
  "(List.map_filter ai images = []) = (\<forall>img \<in> set images. ai img = None)"
  by (induction images) (auto simp: List.map_filter_simps split: option.splits)

lemma length_successes_failures:
  "length (List.map_filter ai images) + length (filter (\<lambda>img. ai img = None) images)
     = length images"
  by (induction images) (auto simp: List.map_filter_simps split: option.splits)

lemma lit_inj: "lit s = lit t \<Longrightarrow> s = t"
proof -
  have "inj (of_char :: char \<Rightarrow> nat)" by (rule inj_of_char)
  then have "inj (map (of_char :: char \<Rightarrow> nat))" by (rule inj_mapI)
  then show "lit s = lit t \<Longrightarrow> s = t" unfolding lit_def by (rule injD)
qed

lemma batchFailure_distinct:
  "analyzeMarksheet ai img \<noteq> Inl (Error batchFailureMessage)"
proof -
  have "lit ''Failed to process marksheet. Please ensure the image is clear and try again.''
      \<noteq> batchFailureMessage"
    unfolding batchFailureMessage_def using lit_inj by fastforce
  then show ?thesis by (simp add: analyzeMarksheet_def split: option.splits)
qed

text \<open>
  Claim C3. A failed extraction becomes a \<open>rejected\<close> outcome and is counted: the loop
  over the outcomes yields the successful results in the order of their images and the
  number of failed calls, and the \<open>try\<close> block never throws. If at least one extraction
  succeeds, \<open>handleAnalyze\<close> ends with these results, their class average, status
  \<open>success\<close> and a message that reports the failure count when it is not 0. If every
  extraction fails (also for a batch of no image), it ends with status \<open>error\<close> and the
  batch message, which no single extraction failure carries, with no results and no
  class average, and \<open>calculateClassAverage\<close> has not been called.
\<close>

theorem handleAnalyze_batch:
  "partition_outcomes (map (settle ai) images)
     = (List.map_filter ai images, length (filter (\<lambda>img. ai img = None) images)) \<and>
   length (List.map_filter ai images) + length (filter (\<lambda>img. ai img = None) images)
     = length images \<and>
   (\<forall>st0. \<exists>st'. handleAnalyze_try lib ai images st0 = Inr st') \<and>
   ((\<exists>img \<in> set images. ai img \<noteq> None) \<longrightarrow>
      (\<exists>avg. calculateClassAverage lib (List.map_filter ai images) = Inr avg \<and>
         handleAnalyze lib ai images st =
           st\<lparr>results := List.map_filter ai images,
              classAverageData := Some avg,
              activeResultIndex := - 1,
              processingState :=
                \<lparr>status = success,
                 message =
                   (if length (filter (\<lambda>img. ai img = None) images) > 0
                    then Some (lit ''Processed ''
                               @ nat_toString (length (List.map_filter ai images))
                               @ lit '' documents. ''
                               @ nat_toString (length (filter (\<lambda>img. ai img = None) images))
                               @ lit '' failed.'')
                    else None)\<rparr>,
              aggregateCalls := aggregateCalls st + 1\<rparr>)) \<and>
   ((\<forall>img \<in> set images. ai img = None) \<longrightarrow>
      handleAnalyze lib ai images st =
        st\<lparr>results := [],
           classAverageData := None,
           processingState := \<lparr>status = error, message = Some batchFailureMessage\<rparr>\<rparr> \<and>
      aggregateCalls (handleAnalyze lib ai images st) = aggregateCalls st) \<and>
   (\<forall>img. analyzeMarksheet ai img \<noteq> Inl (Error batchFailureMessage))"
proof -
  let ?ok = "List.map_filter ai images"
  have a: "(\<exists>img \<in> set images. ai img \<noteq> None) \<longrightarrow>
      (\<exists>avg. calculateClassAverage lib ?ok = Inr avg \<and>
         handleAnalyze lib ai images st =
           st\<lparr>results := ?ok,
              classAverageData := Some avg,
              activeResultIndex := - 1,
              processingState :=
                \<lparr>status = success,
                 message =
                   (if length (filter (\<lambda>img. ai img = None) images) > 0
                    then Some (lit ''Processed '' @ nat_toString (length ?ok)
                               @ lit '' documents. ''
                               @ nat_toString (length (filter (\<lambda>img. ai img = None) images))
                               @ lit '' failed.'')
                    else None)\<rparr>,
              aggregateCalls := aggregateCalls st + 1\<rparr>)"
  proof
    assume "\<exists>img \<in> set images. ai img \<noteq> None"
    then have ne: "?ok \<noteq> []" by (simp add: map_filter_Nil_iff)
    then obtain avg where avg: "calculateClassAverage lib ?ok = Inr avg"
      using calculateClassAverage_nonempty by blast
    show "\<exists>avg. calculateClassAverage lib ?ok = Inr avg \<and>
         handleAnalyze lib ai images st =
           st\<lparr>results := ?ok,
              classAverageData := Some avg,
              activeResultIndex := - 1,
              processingState :=
                \<lparr>status = success,
                 message =
                   (if length (filter (\<lambda>img. ai img = None) images) > 0
                    then Some (lit ''Processed '' @ nat_toString (length ?ok)
                               @ lit '' documents. ''
                               @ nat_toString (length (filter (\<lambda>img. ai img = None) images))
                               @ lit '' failed.'')
                    else None)\<rparr>,
              aggregateCalls := aggregateCalls st + 1\<rparr>"
      using ne avg
      by (intro exI[of _ avg])
         (simp add: handleAnalyze_def handleAnalyze_try_def partition_outcomes_eq Let_def)
  qed
  have b: "(\<forall>img \<in> set images. ai img = None) \<longrightarrow>
      handleAnalyze lib ai images st =
        st\<lparr>results := [],
           classAverageData := None,
           processingState := \<lparr>status = error, message = Some batchFailureMessage\<rparr>\<rparr> \<and>
      aggregateCalls (handleAnalyze lib ai images st) = aggregateCalls st"
  proof
    assume "\<forall>img \<in> set images. ai img = None"
    then have e: "?ok = []" by (simp add: map_filter_Nil_iff)
    show "handleAnalyze lib ai images st =
        st\<lparr>results := [],
           classAverageData := None,
           processingState := \<lparr>status = error, message = Some batchFailureMessage\<rparr>\<rparr> \<and>
      aggregateCalls (handleAnalyze lib ai images st) = aggregateCalls st"
      using e
      by (simp add: handleAnalyze_def handleAnalyze_try_def partition_outcomes_eq Let_def)
  qed
  show ?thesis
    using partition_outcomes_eq[of ai images] length_successes_failures[of ai images]
      handleAnalyze_try_Inr[of lib ai images] a b batchFailure_distinct[of ai]
    by blast
qed

theorem handleAnalyze_batch_witness:
  "example_ai (lit ''img1'') \<noteq> None \<and>
   results (handleAnalyze latin1 example_ai [lit ''img1'', lit ''img2'', lit ''img3''] initialState)
     = scenario \<and>
   classAverageData
     (handleAnalyze latin1 example_ai [lit ''img1'', lit ''img2'', lit ''img3''] initialState)
     = Some scenario_average \<and>
   processingState
     (handleAnalyze latin1 example_ai [lit ''img1'', lit ''img2'', lit ''img3''] initialState)
     = \<lparr>status = success, message = Some (lit ''Processed 2 documents. 1 failed.'')\<rparr> \<and>
   example_ai (lit ''img2'') = None \<and> example_ai (lit ''img4'') = None \<and>
   processingState (handleAnalyze latin1 example_ai [lit ''img2'', lit ''img4''] initialState)
     = \<lparr>status = error, message = Some batchFailureMessage\<rparr> \<and>
   classAverageData (handleAnalyze latin1 example_ai [lit ''img2'', lit ''img4''] initialState)
     = None \<and>
   aggregateCalls (handleAnalyze latin1 example_ai [lit ''img2'', lit ''img4''] initialState) = 0"
proof -
  let ?imgs = "[lit ''img1'', lit ''img2'', lit ''img3'']"
  have ai: "example_ai (lit ''img1'') = Some (scenario ! 0)" "example_ai (lit ''img2'') = None"
    "example_ai (lit ''img3'') = Some (scenario ! 1)" "example_ai (lit ''img4'') = None"
    by (simp_all add: example_ai_def lit_def)
  have ok: "List.map_filter example_ai ?imgs = scenario"
    by (simp add: List.map_filter_simps ai) (simp add: scenario_def)
  have fl: "length (filter (\<lambda>img. example_ai img = None) ?imgs) = 1"
    by (simp add: ai)
  have n: "nat_toString 2 = lit ''2''" "nat_toString (Suc 0) = lit ''1''"
    by (simp_all add: nat_toString.simps lit_def)
  have h: "\<exists>img \<in> set ?imgs. example_ai img \<noteq> None" by (simp add: ai)
  have h2: "\<forall>img \<in> set [lit ''img2'', lit ''img4'']. example_ai img = None" by (simp add: ai)
  note t = handleAnalyze_batch[of example_ai ?imgs latin1 initialState, unfolded ok fl]
  note t2 = handleAnalyze_batch[of example_ai "[lit ''img2'', lit ''img4'']" latin1 initialState]
  from t h obtain avg where avg: "calculateClassAverage latin1 scenario = Inr avg"
    and st: "handleAnalyze latin1 example_ai ?imgs initialState =
       initialState\<lparr>results := scenario, classAverageData := Some avg, activeResultIndex := - 1,
         processingState :=
           \<lparr>status = success,
            message = (if 0 < (1::nat) then Some (lit ''Processed '' @ nat_toString (length scenario)
                               @ lit '' documents. '' @ nat_toString 1 @ lit '' failed.'') else None)\<rparr>,
         aggregateCalls := aggregateCalls initialState + 1\<rparr>"
    by blast
  have avg': "avg = scenario_average" using avg scenario_result by simp
  have l: "length scenario = 2" by (simp add: scenario_def)
  have m: "lit ''Processed '' @ lit ''2'' @ lit '' documents. '' @ lit ''1'' @ lit '' failed.''
      = lit ''Processed 2 documents. 1 failed.''" by (simp add: lit_def)
  from t2 h2 have st2: "handleAnalyze latin1 example_ai [lit ''img2'', lit ''img4''] initialState =
        initialState\<lparr>results := [], classAverageData := None,
           processingState := \<lparr>status = error, message = Some batchFailureMessage\<rparr>\<rparr>"
    by blast
  show ?thesis
    unfolding st st2 by (simp add: ai avg' l n m initialState_def)
qed

section \<open>Sums beyond the exact range\<close>

lemma marks_huge:
  "Math_round (js_divide (float_sum [Fin 9007199254740992, Fin 1]) 2) = Fin 4503599627370496"
  "exact_rounded_mean [Fin 9007199254740992, Fin 1] = 4503599627370497"
proof -
  have hs0: "js_add (Fin (0)) (Fin (9007199254740992)) = Fin (9007199254740992)"
    unfolding js_add.simps
    by (rule fl_cert[where e = "1" and m = 4503599627370496])
       (simp_all add: overflow_threshold_def power_int_minus)
  have hs1: "js_add (Fin (9007199254740992)) (Fin (1)) = Fin (9007199254740992)"
    unfolding js_add.simps
    by (rule fl_cert_tie[where e = "1" and f = 4503599627370496 and m = 4503599627370496])
       (simp_all add: overflow_threshold_def power_int_minus)
  have hd: "js_divide (Fin (9007199254740992)) 2 = Fin (4503599627370496)"
  proof -
    have "fl ((9007199254740992) / 2) = Fin (4503599627370496)"
      by (rule fl_cert[where e = "0" and m = 4503599627370496])
       (simp_all add: overflow_threshold_def power_int_minus)
    then show ?thesis by simp
  qed
  have hr: "Math_round (Fin (4503599627370496)) = Fin 4503599627370496"
  proof -
    have "\<lfloor>(4503599627370496 :: rat) + 1 / 2\<rfloor> = 4503599627370496" by (rule floor_unique) simp_all
    then show ?thesis by simp
  qed
  show "Math_round (js_divide (float_sum [Fin 9007199254740992, Fin 1]) 2) = Fin 4503599627370496"
    by (simp only: float_sum_def foldl_Cons foldl_Nil hs0 hs1 hd hr)
  show "exact_rounded_mean [Fin 9007199254740992, Fin 1] = 4503599627370497"
    unfolding exact_rounded_mean_def by (rule floor_unique) (simp_all add: val_def)
qed





section \<open>The nearest integer\<close>

lemma exact_rounded_mean_nearest:
  "exact_rounded_mean xs = \<lfloor>exact_mean xs + 1 / 2\<rfloor>"
  "exact_mean xs - 1 / 2 < of_int (exact_rounded_mean xs)"
  "of_int (exact_rounded_mean xs) \<le> exact_mean xs + 1 / 2"
proof -
  show e: "exact_rounded_mean xs = \<lfloor>exact_mean xs + 1 / 2\<rfloor>"
    by (simp add: exact_rounded_mean_def exact_mean_def)
  have "exact_mean xs + 1 / 2 < of_int \<lfloor>exact_mean xs + 1 / 2\<rfloor> + 1" by linarith
  then show "exact_mean xs - 1 / 2 < of_int (exact_rounded_mean xs)" unfolding e by linarith
  have "of_int \<lfloor>exact_mean xs + 1 / 2\<rfloor> \<le> exact_mean xs + 1 / 2" by (rule of_int_floor_le)
  then show "of_int (exact_rounded_mean xs) \<le> exact_mean xs + 1 / 2" unfolding e .
qed

section \<open>Students with the one subject Math\<close>

lemma mathStudents_fields:
  "map totalObtained (mathStudents xs) = xs"
  "allSubjects (mathStudents xs) = map (\<lambda>x. oneSubject ''Math'' x None) xs"
  "length (mathStudents xs) = length xs"
  by (induction xs) (simp_all add: mathStudents_def mkResult_def allSubjects_def)

lemma mathStudents_subjectMap:
  "xs \<noteq> [] \<Longrightarrow>
   foldl (addSubject latin1) [] (map (\<lambda>x. oneSubject ''Math'' x None) xs) =
     [(lit ''math'',
       \<lparr>acc_total = float_sum xs, acc_count = length xs, acc_fullMarks = Fin 100\<rparr>)]"
proof (induction xs rule: rev_induct)
  case Nil
  then show ?case by simp
next
  case (snoc x xs)
  let ?g = "\<lambda>x. oneSubject ''Math'' x None"
  have step: "foldl (addSubject latin1) [] (map ?g (xs @ [x]))
      = addSubject latin1 (foldl (addSubject latin1) [] (map ?g xs)) (?g x)"
    by simp
  show ?case
  proof (cases "xs = []")
    case True
    show ?thesis
      unfolding step unfolding True
      by (simp add: addSubject_def oneSubject_def scenario_keys fullMarks_or_100_def
            float_sum_def)
  next
    case False
    show ?thesis
      unfolding step snoc.IH[OF False]
      by (simp add: addSubject_def oneSubject_def scenario_keys fullMarks_or_100_def
            float_sum_snoc)
  qed
qed

lemma mathStudents_result:
  assumes "xs \<noteq> []" and "calculateClassAverage latin1 (mathStudents xs) = Inr r"
  shows "subjects r =
           [\<lparr>subject = lit ''Math'',
             score = Math_round (js_divide (float_sum xs) (length xs)),
             fullMarks = Some (Fin 100)\<rparr>]"
    and "totalObtained r = Math_round (js_divide (float_sum xs) (length xs))"
    and "percentage r =
           Math_round (js_divide
             (float_sum [Math_round (js_divide (float_sum xs) (length xs))]) 1)"
proof -
  note c = calculateClassAverage_Inr[OF assms(2)]
  show s: "subjects r =
           [\<lparr>subject = lit ''Math'',
             score = Math_round (js_divide (float_sum xs) (length xs)),
             fullMarks = Some (Fin 100)\<rparr>]"
    unfolding c(2) subjectMap_aggregate mathStudents_fields
      mathStudents_subjectMap[OF assms(1)]
    by (simp add: avgSubject_def scenario_names)
  show "totalObtained r = Math_round (js_divide (float_sum xs) (length xs))"
    unfolding c(3) mathStudents_fields by (rule refl)
  show "percentage r =
           Math_round (js_divide
             (float_sum [Math_round (js_divide (float_sum xs) (length xs))]) 1)"
    unfolding c(5) s calculateAverageScore_Some by simp
qed

section \<open>calculateAverageScore\<close>

lemma calculateAverageScore_nonempty:
  "subs \<noteq> [] \<Longrightarrow>
   calculateAverageScore (Some subs)
     = Math_round (js_divide (float_sum (map score subs)) (length subs))"
  by (simp add: calculateAverageScore_Some)

lemma decimal_mean:
  "\<lfloor>((444 / 10 + 602 / 10 + 328 / 10 + 526 / 10) / 4 :: rat) + 1 / 2\<rfloor> = 48"
  by (rule floor_unique) simp_all

lemma decimalMarks_mean:
  "Math_round (js_divide (float_sum decimalMarks) (length decimalMarks)) = Fin 47"
  "exact_rounded_mean decimalMarks = 48"
proof -
  have l: "length decimalMarks = 4" by (simp add: decimalMarks_def)
  show "Math_round (js_divide (float_sum decimalMarks) (length decimalMarks)) = Fin 47"
    unfolding l unfolding decimalMarks_def by (rule marks_444_602_328_526(1))
  show "exact_rounded_mean decimalMarks = 48"
    unfolding decimalMarks_def by (rule marks_444_602_328_526(2))
qed

text \<open>
  The statement of claim C9 fails for scores with a fractional part. The scores 44.4,
  60.2, 32.8 and 52.6 have the mean 47.5, and the doubles they denote a mean slightly
  above: the nearest integer, a tie going up, is 48 in both readings. The function
  returns 47, because the sum it forms is rounded after every addition.
\<close>

theorem rounded_mean_counterexample:
  "calculateAverageScore (Some (map (\<lambda>x. oneSubject ''Math'' x None) decimalMarks)) = Fin 47 \<and>
   exact_rounded_mean decimalMarks = 48 \<and>
   \<lfloor>((444 / 10 + 602 / 10 + 328 / 10 + 526 / 10) / 4 :: rat) + 1 / 2\<rfloor> = 48"
proof -
  let ?subs = "map (\<lambda>x. oneSubject ''Math'' x None) decimalMarks"
  have n: "?subs \<noteq> []" by (simp add: decimalMarks_def)
  have m: "map score ?subs = decimalMarks" by (simp add: oneSubject_def o_def)
  have "calculateAverageScore (Some ?subs) = Fin 47"
    unfolding calculateAverageScore_nonempty[OF n] m length_map by (rule decimalMarks_mean(1))
  then show ?thesis using decimalMarks_mean(2) decimal_mean by simp
qed

lemma marks_70_85_90:
  "small_integers 100 [Fin 70, Fin 85, Fin 90]"
  "exact_rounded_mean [Fin 70, Fin 85, Fin 90] = 82"
proof -
  show "small_integers 100 [Fin 70, Fin 85, Fin 90]"
    by (simp add: small_integers_def is_int_within_def)
  show "exact_rounded_mean [Fin 70, Fin 85, Fin 90] = 82"
    unfolding exact_rounded_mean_def by (rule floor_unique) (simp_all add: val_def)
qed

text \<open>
  Claim C9, amended. \<open>calculateAverageScore\<close> returns 0 for a missing and for an empty
  list. For a non-empty list it returns \<open>Math.round\<close> of the quotient of the sum of the
  scores, formed from 0 and from left to right in double arithmetic, by their number.
  Where the scores are integers of absolute value at most \<open>B\<close> and their number times
  \<open>B\<close> is below \<open>2 ^ 52\<close>, this is the mean of the scores rounded to the nearest integer:
  the integer \<open>k\<close> with \<open>mean - 1/2 < k \<le> mean + 1/2\<close>, which is \<open>\<lfloor>mean + 1/2\<rfloor>\<close>. The
  scores 70, 85 and 90 give 82.
\<close>

theorem calculateAverageScore_rounded_mean:
  "calculateAverageScore None = Fin 0 \<and>
   calculateAverageScore (Some []) = Fin 0 \<and>
   (subs \<noteq> [] \<longrightarrow>
      calculateAverageScore (Some subs)
        = Math_round (js_divide (float_sum (map score subs)) (length subs))) \<and>
   (subs \<noteq> [] \<longrightarrow> small_integers B (map score subs) \<longrightarrow>
      calculateAverageScore (Some subs) = Fin (of_int (exact_rounded_mean (map score subs))) \<and>
      exact_rounded_mean (map score subs) = \<lfloor>exact_mean (map score subs) + 1 / 2\<rfloor> \<and>
      exact_mean (map score subs) - 1 / 2 < of_int (exact_rounded_mean (map score subs)) \<and>
      of_int (exact_rounded_mean (map score subs)) \<le> exact_mean (map score subs) + 1 / 2) \<and>
   calculateAverageScore
     (Some [\<lparr>subject = n1, score = Fin 70, fullMarks = f1\<rparr>,
            \<lparr>subject = n2, score = Fin 85, fullMarks = f2\<rparr>,
            \<lparr>subject = n3, score = Fin 90, fullMarks = f3\<rparr>]) = Fin 82"
proof -
  have a: "calculateAverageScore None = Fin 0" "calculateAverageScore (Some []) = Fin 0"
    by (simp_all add: calculateAverageScore_def)
  have b: "calculateAverageScore (Some subs)
        = Math_round (js_divide (float_sum (map score subs)) (length subs))"
    if "subs \<noteq> []"
    using that by (rule calculateAverageScore_nonempty)
  have c: "calculateAverageScore (Some subs)
        = Fin (of_int (exact_rounded_mean (map score subs)))"
    if n: "subs \<noteq> []" and s: "small_integers B (map score subs)"
  proof -
    have "map score subs \<noteq> []" using n by simp
    from rounded_mean_exact(1)[OF s this] show ?thesis
      unfolding calculateAverageScore_nonempty[OF n] by simp
  qed
  let ?ex = "[\<lparr>subject = n1, score = Fin 70, fullMarks = f1\<rparr>,
              \<lparr>subject = n2, score = Fin 85, fullMarks = f2\<rparr>,
              \<lparr>subject = n3, score = Fin 90, fullMarks = f3\<rparr>]"
  have m: "map score ?ex = [Fin 70, Fin 85, Fin 90]" by simp
  have "?ex \<noteq> []" by simp
  from calculateAverageScore_nonempty[OF this]
  have "calculateAverageScore (Some ?ex)
      = Math_round (js_divide (float_sum [Fin 70, Fin 85, Fin 90])
          (length [Fin 70, Fin 85, Fin 90 :: number]))"
    unfolding m by simp
  also have "\<dots> = Fin (of_int (exact_rounded_mean [Fin 70, Fin 85, Fin 90]))"
    by (rule rounded_mean_exact(1)[OF marks_70_85_90(1)]) simp
  also have "\<dots> = Fin 82" unfolding marks_70_85_90(2) by simp
  finally have d: "calculateAverageScore (Some ?ex) = Fin 82" .
  from a b c d exact_rounded_mean_nearest[of "map score subs"] show ?thesis by blast
qed

theorem calculateAverageScore_rounded_mean_witness:
  "[oneSubject ''Math'' (Fin 70) None, oneSubject ''Art'' (Fin 85) None,
    oneSubject ''Music'' (Fin 90) None] \<noteq> [] \<and>
   small_integers 100
     (map score [oneSubject ''Math'' (Fin 70) None, oneSubject ''Art'' (Fin 85) None,
                 oneSubject ''Music'' (Fin 90) None]) \<and>
   calculateAverageScore
     (Some [oneSubject ''Math'' (Fin 70) None, oneSubject ''Art'' (Fin 85) None,
            oneSubject ''Music'' (Fin 90) None]) = Fin 82 \<and>
   exact_rounded_mean
     (map score [oneSubject ''Math'' (Fin 70) None, oneSubject ''Art'' (Fin 85) None,
                 oneSubject ''Music'' (Fin 90) None]) = 82"
proof -
  let ?ex = "[oneSubject ''Math'' (Fin 70) None, oneSubject ''Art'' (Fin 85) None,
              oneSubject ''Music'' (Fin 90) None]"
  have m: "map score ?ex = [Fin 70, Fin 85, Fin 90]" by (simp add: oneSubject_def)
  have n: "?ex \<noteq> []" by simp
  have s: "small_integers 100 (map score ?ex)" unfolding m by (rule marks_70_85_90(1))
  have e: "exact_rounded_mean (map score ?ex) = 82" unfolding m by (rule marks_70_85_90(2))
  from calculateAverageScore_rounded_mean[of ?ex 100] n s
  have "calculateAverageScore (Some ?ex) = Fin (of_int (exact_rounded_mean (map score ?ex)))"
    by blast
  then have "calculateAverageScore (Some ?ex) = Fin 82" unfolding e by simp
  with n s e show ?thesis by blast
qed

section \<open>The totals\<close>

text \<open>
  The statement of claim C6 fails for totals with a fractional part. Four students with
  the totals 44.4, 60.2, 32.8 and 52.6 have the mean 47.5, and the doubles these denote a
  mean slightly above; rounded to the nearest integer, a tie going up, both give 48. The
  aggregate's \<open>totalObtained\<close> is 47.
\<close>

theorem totals_counterexample:
  "\<exists>r. calculateClassAverage latin1 (mathStudents decimalMarks) = Inr r \<and>
       map totalObtained (mathStudents decimalMarks) = decimalMarks \<and>
       totalObtained r = Fin 47 \<and>
       exact_rounded_mean decimalMarks = 48 \<and>
       \<lfloor>((444 / 10 + 602 / 10 + 328 / 10 + 526 / 10) / 4 :: rat) + 1 / 2\<rfloor> = 48"
proof -
  have n: "decimalMarks \<noteq> []" by (simp add: decimalMarks_def)
  then have "mathStudents decimalMarks \<noteq> []" by (simp add: mathStudents_def)
  then obtain r where r: "calculateClassAverage latin1 (mathStudents decimalMarks) = Inr r"
    using calculateClassAverage_nonempty by blast
  have "totalObtained r = Fin 47"
    unfolding mathStudents_result(2)[OF n r] by (rule decimalMarks_mean(1))
  with r mathStudents_fields(1)[of decimalMarks] decimalMarks_mean(2) decimal_mean
  show ?thesis by blast
qed

text \<open>
  Claim C6, amended. For \<open>n\<close> results, \<open>totalObtained\<close> of the aggregate is \<open>Math.round\<close>
  of the quotient of the sum of the inputs' \<open>totalObtained\<close>, formed from 0 and from left
  to right in double arithmetic, by \<open>n\<close>, and likewise \<open>totalPossible\<close>. Where the
  inputs' values of the field are integers of absolute value at most \<open>B\<close> and \<open>n\<close> times
  \<open>B\<close> is below \<open>2 ^ 52\<close>, this is their mean rounded to the nearest integer, a tie going
  up. Neither total reads the subject lists: two batches with the same totals get the
  same two values.
\<close>

theorem totals_are_rounded_means:
  assumes "calculateClassAverage lib rs = Inr r"
  shows "totalObtained r
           = Math_round (js_divide (float_sum (map totalObtained rs)) (length rs)) \<and>
         totalPossible r
           = Math_round (js_divide (float_sum (map totalPossible rs)) (length rs)) \<and>
         (small_integers B (map totalObtained rs) \<longrightarrow>
            totalObtained r = Fin (of_int (exact_rounded_mean (map totalObtained rs))) \<and>
            exact_mean (map totalObtained rs) - 1 / 2
              < of_int (exact_rounded_mean (map totalObtained rs)) \<and>
            of_int (exact_rounded_mean (map totalObtained rs))
              \<le> exact_mean (map totalObtained rs) + 1 / 2) \<and>
         (small_integers B (map totalPossible rs) \<longrightarrow>
            totalPossible r = Fin (of_int (exact_rounded_mean (map totalPossible rs))) \<and>
            exact_mean (map totalPossible rs) - 1 / 2
              < of_int (exact_rounded_mean (map totalPossible rs)) \<and>
            of_int (exact_rounded_mean (map totalPossible rs))
              \<le> exact_mean (map totalPossible rs) + 1 / 2) \<and>
         (\<forall>rs' r'. map totalObtained rs' = map totalObtained rs \<longrightarrow>
                   map totalPossible rs' = map totalPossible rs \<longrightarrow>
                   calculateClassAverage lib rs' = Inr r' \<longrightarrow>
                   totalObtained r' = totalObtained r \<and> totalPossible r' = totalPossible r)"
proof -
  note c = calculateClassAverage_Inr[OF assms]
  have ne: "rs \<noteq> []" by (rule c(1))
  have o: "totalObtained r = Fin (of_int (exact_rounded_mean (map totalObtained rs)))"
    if s: "small_integers B (map totalObtained rs)"
  proof -
    have "map totalObtained rs \<noteq> []" using ne by simp
    from rounded_mean_exact(1)[OF s this] show ?thesis unfolding c(3) by simp
  qed
  have p: "totalPossible r = Fin (of_int (exact_rounded_mean (map totalPossible rs)))"
    if s: "small_integers B (map totalPossible rs)"
  proof -
    have "map totalPossible rs \<noteq> []" using ne by simp
    from rounded_mean_exact(1)[OF s this] show ?thesis unfolding c(4) by simp
  qed
  have q: "totalObtained r' = totalObtained r \<and> totalPossible r' = totalPossible r"
    if o: "map totalObtained rs' = map totalObtained rs"
      and p: "map totalPossible rs' = map totalPossible rs"
      and c': "calculateClassAverage lib rs' = Inr r'" for rs' r'
  proof -
    have "length rs' = length rs" using o by (rule map_eq_imp_length_eq)
    then show ?thesis
      using calculateClassAverage_Inr(3,4)[OF c'] c(3,4) o p by simp
  qed
  from c(3,4) o p q
    exact_rounded_mean_nearest(2,3)[of "map totalObtained rs"]
    exact_rounded_mean_nearest(2,3)[of "map totalPossible rs"]
  show ?thesis by blast
qed

theorem totals_are_rounded_means_witness:
  "calculateClassAverage latin1 scenario = Inr scenario_average \<and>
   map totalObtained scenario = [Fin 170, Fin 130] \<and>
   map totalPossible scenario = [Fin 200, Fin 200] \<and>
   small_integers 200 (map totalObtained scenario) \<and>
   small_integers 200 (map totalPossible scenario) \<and>
   totalObtained scenario_average = Fin (of_int (exact_rounded_mean (map totalObtained scenario))) \<and>
   totalPossible scenario_average = Fin (of_int (exact_rounded_mean (map totalPossible scenario))) \<and>
   totalObtained scenario_average = Fin 150 \<and> totalPossible scenario_average = Fin 200"
proof -
  have o: "map totalObtained scenario = [Fin 170, Fin 130]"
    and p: "map totalPossible scenario = [Fin 200, Fin 200]"
    by (simp_all add: scenario_def mkResult_def)
  have so: "small_integers 200 (map totalObtained scenario)"
    and sp: "small_integers 200 (map totalPossible scenario)"
    unfolding o p by (simp_all add: small_integers_def is_int_within_def)
  have v: "totalObtained scenario_average = Fin 150" "totalPossible scenario_average = Fin 200"
    by (simp_all add: scenario_average_def)
  from totals_are_rounded_means[OF scenario_result, of 200] so sp
  have "totalObtained scenario_average
          = Fin (of_int (exact_rounded_mean (map totalObtained scenario)))"
    and "totalPossible scenario_average
          = Fin (of_int (exact_rounded_mean (map totalPossible scenario)))"
    by blast+
  with scenario_result o p so sp v show ?thesis by blast
qed

section \<open>Averaged scores of integer marks\<close>

lemma contributors_small:
  assumes "small_integers B (map score subs)"
  shows "small_integers B (map score (contributors lib k subs))"
proof (rule small_integers_shorter[OF assms])
  show "set (map score (contributors lib k subs)) \<subseteq> set (map score subs)"
    by (auto simp: contributors_def)
  show "length (map score (contributors lib k subs)) \<le> length (map score subs)"
    by (simp add: contributors_def)
qed

lemma group_score_small:
  assumes S: "small_integers B (map score subs)"
    and ka: "(k, a) \<in> set (foldl (addSubject lib) [] subs)"
  shows "score (avgSubject lib (k, a))
           = Fin (of_int (exact_rounded_mean (map score (contributors lib k subs))))"
    and "\<bar>exact_rounded_mean (map score (contributors lib k subs))\<bar> \<le> B"
    and "is_int_within B (score (avgSubject lib (k, a)))"
proof -
  note p = subjectMap_pairs[OF ka]
  let ?xs = "map score (contributors lib k subs)"
  have ne: "?xs \<noteq> []" using p(1) by simp
  note r = rounded_mean_exact[OF contributors_small[OF S] ne]
  have "score (avgSubject lib (k, a)) = Math_round (js_divide (float_sum ?xs) (length ?xs))"
    by (simp add: avgSubject_def p(2) groupAcc_def)
  then show s: "score (avgSubject lib (k, a)) = Fin (of_int (exact_rounded_mean ?xs))"
    unfolding r(1) .
  show b: "\<bar>exact_rounded_mean ?xs\<bar> \<le> B" by (rule r(2))
  show "is_int_within B (score (avgSubject lib (k, a)))"
    unfolding s using b by (rule is_int_within_Fin)
qed

lemma subjectMap_length: "length (foldl (addSubject lib) [] subs) \<le> length subs"
proof -
  let ?M = "foldl (addSubject lib) [] subs"
  have "length ?M = length (map fst ?M)" by simp
  also have "\<dots> = card (set (map fst ?M))"
    using distinct_subjectMap[of lib subs] by (simp only: distinct_card)
  also have "\<dots> = card ((\<lambda>s. normKey lib (subject s)) ` set subs)"
    using keys_subjectMap[of lib subs] by simp
  also have "\<dots> \<le> card (set subs)" by (rule card_image_le) simp
  also have "\<dots> \<le> length subs" by (rule card_length)
  finally show ?thesis .
qed

lemma avg_scores_small:
  assumes S: "small_integers B (map score subs)"
  shows "small_integers B (map score (map (avgSubject lib) (foldl (addSubject lib) [] subs)))"
proof -
  let ?M = "foldl (addSubject lib) [] subs"
  have a: "list_all (is_int_within B) (map score (map (avgSubject lib) ?M))"
    using group_score_small(3)[OF S] by (auto simp: list_all_iff)
  show ?thesis
  proof (cases "?M = []")
    case True
    then show ?thesis by (simp add: small_integers_def)
  next
    case False
    then obtain k v where kv: "(k, v) \<in> set ?M" by (cases ?M) auto
    from group_score_small(2)[OF S kv] have B0: "0 \<le> B" by linarith
    have "int (length ?M) \<le> int (length subs)" using subjectMap_length[of lib subs] by simp
    then have "int (length ?M) * B \<le> int (length subs) * B" using B0 by (rule mult_right_mono)
    moreover have "int (length subs) * B < 2 ^ 52" using S by (simp add: small_integers_def)
    ultimately have "int (length ?M) * B < 2 ^ 52" by linarith
    with a show ?thesis by (simp add: small_integers_def)
  qed
qed

section \<open>Permuting the batch\<close>

lemma sum_list_map_mset:
  fixes f :: "'a \<Rightarrow> 'b::comm_monoid_add"
  assumes "mset xs = mset ys"
  shows "sum_list (map f xs) = sum_list (map f ys)"
proof -
  have "sum_mset (mset (map f xs)) = sum_mset (mset (map f ys))"
    using assms by simp
  then show ?thesis by (simp only: sum_mset_sum_list)
qed

lemma allSubjects_mset:
  assumes "mset rs' = mset rs"
  shows "mset (allSubjects rs') = mset (allSubjects rs)"
  unfolding allSubjects_def mset_concat map_map
  using assms by (rule sum_list_map_mset)

lemma contributors_mset:
  "mset subs' = mset subs \<Longrightarrow>
   mset (contributors lib k subs') = mset (contributors lib k subs)"
  by (simp add: contributors_def)

lemma contributors_Nil_mset:
  assumes "mset subs' = mset subs"
  shows "(contributors lib k subs' = []) = (contributors lib k subs = [])"
proof -
  have "length (contributors lib k subs') = length (contributors lib k subs)"
    using contributors_mset[OF assms] by (rule mset_eq_length)
  then show ?thesis by (metis length_0_conv)
qed

lemma running_max_mset:
  assumes "mset ys = mset xs" and "\<forall>x \<in> set xs. x \<noteq> NaN"
  shows "running_max ys = running_max xs"
proof (cases "xs = []")
  case True
  with assms(1) have "ys = []" by simp
  with True show ?thesis by simp
next
  case False
  have s: "set ys = set xs" using assms(1) by (rule mset_eq_setD)
  have "length ys = length xs" using assms(1) by (rule mset_eq_length)
  with False have ne: "ys \<noteq> []" by auto
  have n: "\<forall>x \<in> set ys. x \<noteq> NaN" using assms(2) s by simp
  note a = running_max_is_maximum[OF False assms(2)]
  note b = running_max_is_maximum[OF ne n]
  show ?thesis
    by (rule maximum_unique[of _ xs]) (use a b s in simp_all)
qed

lemma groupAcc_mset_parts:
  assumes "mset subs' = mset subs"
  shows "acc_count (groupAcc lib k subs') = acc_count (groupAcc lib k subs)"
    and "acc_fullMarks (groupAcc lib k subs') = acc_fullMarks (groupAcc lib k subs)"
    and "small_integers B (map score subs) \<Longrightarrow>
         acc_total (groupAcc lib k subs') = acc_total (groupAcc lib k subs)"
proof -
  note c = contributors_mset[OF assms, of lib k]
  show "acc_count (groupAcc lib k subs') = acc_count (groupAcc lib k subs)"
    using mset_eq_length[OF c] by (simp add: groupAcc_def)
  have "mset (map (\<lambda>s. fullMarks_or_100 (fullMarks s)) (contributors lib k subs'))
      = mset (map (\<lambda>s. fullMarks_or_100 (fullMarks s)) (contributors lib k subs))"
    using c by simp
  then have "running_max (map (\<lambda>s. fullMarks_or_100 (fullMarks s)) (contributors lib k subs'))
      = running_max (map (\<lambda>s. fullMarks_or_100 (fullMarks s)) (contributors lib k subs))"
    by (rule running_max_mset) simp
  then show "acc_fullMarks (groupAcc lib k subs') = acc_fullMarks (groupAcc lib k subs)"
    by (simp add: groupAcc_def)
  assume S: "small_integers B (map score subs)"
  have m: "mset (map score (contributors lib k subs')) = mset (map score (contributors lib k subs))"
    using c by simp
  from small_integers_mset(2)[OF m contributors_small[OF S]]
  show "acc_total (groupAcc lib k subs') = acc_total (groupAcc lib k subs)"
    by (simp add: groupAcc_def)
qed

lemma groupAcc_mset:
  assumes "mset subs' = mset subs" and "small_integers B (map score subs)"
  shows "groupAcc lib k subs' = groupAcc lib k subs"
  by (rule SubjectAcc.equality)
     (simp_all add: groupAcc_mset_parts(1,2)[OF assms(1)] groupAcc_mset_parts(3)[OF assms])

lemma subjectMap_mset:
  assumes "mset subs' = mset subs" and "small_integers B (map score subs)"
  shows "mset (foldl (addSubject lib) [] subs') = mset (foldl (addSubject lib) [] subs)"
proof -
  have "map_of (foldl (addSubject lib) [] subs') = map_of (foldl (addSubject lib) [] subs)"
    by (rule ext)
       (simp add: map_of_subjectMap contributors_Nil_mset[OF assms(1)] groupAcc_mset[OF assms])
  then have "set (foldl (addSubject lib) [] subs') = set (foldl (addSubject lib) [] subs)"
    using map_of_inject_set[OF distinct_subjectMap distinct_subjectMap] by blast
  moreover have "distinct (foldl (addSubject lib) [] subs')"
    "distinct (foldl (addSubject lib) [] subs)"
    using distinct_subjectMap distinct_map by blast+
  ultimately show ?thesis by (simp add: set_eq_iff_mset_eq_distinct)
qed

lemma subjectMap_length_mset:
  assumes "mset subs' = mset subs"
  shows "length (foldl (addSubject lib) [] subs') = length (foldl (addSubject lib) [] subs)"
proof -
  have l: "length (foldl (addSubject lib) [] xs)
      = card ((\<lambda>s. normKey lib (subject s)) ` set xs)" for xs
  proof -
    let ?M = "foldl (addSubject lib) [] xs"
    have "length ?M = length (map fst ?M)" by simp
    also have "\<dots> = card (set (map fst ?M))"
      using distinct_subjectMap[of lib xs] by (simp only: distinct_card)
    also have "\<dots> = card ((\<lambda>s. normKey lib (subject s)) ` set xs)"
      using keys_subjectMap[of lib xs] by simp
    finally show ?thesis .
  qed
  have "set subs' = set subs" using assms by (rule mset_eq_setD)
  then show ?thesis by (simp add: l)
qed

lemma calculateAverageScore_mset:
  assumes "mset xs = mset ys" and "small_integers B (map score ys)"
  shows "calculateAverageScore (Some xs) = calculateAverageScore (Some ys)"
proof -
  have m: "mset (map score xs) = mset (map score ys)" using assms(1) by simp
  have "float_sum (map score xs) = float_sum (map score ys)"
    using m assms(2) by (rule small_integers_mset(2))
  moreover have "length xs = length ys" using assms(1) by (rule mset_eq_length)
  moreover have "(xs = []) = (ys = [])" using assms(1) by (metis mset_zero_iff)
  ultimately show ?thesis by (simp add: calculateAverageScore_Some)
qed

lemma entryOf_eq:
  "entryOf lib rs k =
     (if contributors lib k (allSubjects rs) = [] then None
      else Some (avgSubject lib (k, groupAcc lib k (allSubjects rs))))"
  by (simp add: entryOf_def subjectMap_aggregate map_of_subjectMap)

lemma entries_entryOf:
  "(e \<in> set (map (avgSubject lib) (subjectMap (aggregate lib rs))))
     = (\<exists>k. entryOf lib rs k = Some e)"
proof -
  let ?M = "foldl (addSubject lib) [] (allSubjects rs)"
  have d: "distinct (map fst ?M)" by (rule distinct_subjectMap)
  have "(e \<in> set (map (avgSubject lib) ?M)) = (\<exists>k a. (k, a) \<in> set ?M \<and> e = avgSubject lib (k, a))"
    by auto
  also have "\<dots> = (\<exists>k a. map_of ?M k = Some a \<and> e = avgSubject lib (k, a))"
    using d by simp
  also have "\<dots> = (\<exists>k. entryOf lib rs k = Some e)"
    by (auto simp: entryOf_def subjectMap_aggregate)
  finally show ?thesis by (simp add: subjectMap_aggregate)
qed

section \<open>The percentage\<close>

lemma scenario_small:
  "small_integers 100 (map score (allSubjects scenario))"
  "small_integers 200 (map totalObtained scenario)"
  "small_integers 200 (map totalPossible scenario)"
  by (simp_all add: scenario_def mkResult_def allSubjects_def small_integers_def
        is_int_within_def)

lemma hugeStudent_subjects:
  "map (avgSubject latin1) (subjectMap (aggregate latin1 [hugeStudent])) =
     [\<lparr>subject = lit ''A'', score = Fin 9007199254740992, fullMarks = Some (Fin 100)\<rparr>,
      \<lparr>subject = lit ''B'', score = Fin 1, fullMarks = Some (Fin 100)\<rparr>]"
proof -
  have k: "normKey latin1 (lit ''A'') = lit ''a''" "normKey latin1 (lit ''B'') = lit ''b''"
    by (simp_all add: string_defs)
  have n: "toUpperCase latin1 (charAt0 (lit ''a'')) @ slice1 (lit ''a'') = lit ''A''"
    "toUpperCase latin1 (charAt0 (lit ''b'')) @ slice1 (lit ''b'') = lit ''B''"
    by (simp_all add: string_defs)
  have d: "lit ''a'' \<noteq> lit ''b''" "lit ''b'' \<noteq> lit ''a''" by (simp_all add: lit_def)
  have r: "Math_round (Fin 1) = Fin 1" using Math_round_of_int[of 1] by simp
  have m: "subjectMap (aggregate latin1 [hugeStudent]) =
      [(lit ''a'', \<lparr>acc_total = Fin 9007199254740992, acc_count = 1, acc_fullMarks = Fin 100\<rparr>),
       (lit ''b'', \<lparr>acc_total = Fin 1, acc_count = 1, acc_fullMarks = Fin 100\<rparr>)]"
    by (simp add: subjectMap_aggregate hugeStudent_def example_defs addSubject_def k d
          number_simps fullMarks_or_100_def Math_max_def)
  show ?thesis
    unfolding m by (simp add: avgSubject_def n number_simps r del: Math_round.simps)
qed

text \<open>
  The statement of claim C5 fails where the sum of the averaged scores is not a double.
  For one student with the subjects A, of score \<open>2 ^ 53\<close>, and B, of score 1, the averaged
  scores are \<open>2 ^ 53\<close> and 1. Their mean is \<open>2 ^ 52 + 1/2\<close>, which rounds to
  \<open>2 ^ 52 + 1 = 4503599627370497\<close>; the percentage is \<open>2 ^ 52 = 4503599627370496\<close>.
\<close>

theorem percentage_counterexample:
  "\<exists>r. calculateClassAverage latin1 [hugeStudent] = Inr r \<and>
       map score (subjects r) = [Fin 9007199254740992, Fin 1] \<and>
       percentage r = Fin 4503599627370496 \<and>
       exact_rounded_mean (map score (subjects r)) = 4503599627370497"
proof -
  have "[hugeStudent] \<noteq> []" by simp
  then obtain r where r: "calculateClassAverage latin1 [hugeStudent] = Inr r"
    using calculateClassAverage_nonempty by blast
  note c = calculateClassAverage_Inr[OF r]
  have s: "subjects r =
     [\<lparr>subject = lit ''A'', score = Fin 9007199254740992, fullMarks = Some (Fin 100)\<rparr>,
      \<lparr>subject = lit ''B'', score = Fin 1, fullMarks = Some (Fin 100)\<rparr>]"
    unfolding c(2) by (rule hugeStudent_subjects)
  have m: "map score (subjects r) = [Fin 9007199254740992, Fin 1]" unfolding s by simp
  have n: "subjects r \<noteq> []" unfolding s by simp
  have l: "length (subjects r) = 2" unfolding s by simp
  have p: "percentage r = Fin 4503599627370496"
    unfolding c(5) calculateAverageScore_nonempty[OF n] m l by (rule marks_huge(1))
  have e: "exact_rounded_mean (map score (subjects r)) = 4503599627370497"
    unfolding m by (rule marks_huge(2))
  show ?thesis by (intro exI[of _ r] conjI) (rule r m p e)+
qed

text \<open>
  Claim C5, amended. The percentage of the aggregate is \<open>calculateAverageScore\<close> applied
  to the averaged subject list it returns: 0 for an empty list, and otherwise
  \<open>Math.round\<close> of the quotient of the sum of the entries' scores, formed from 0 and from
  left to right in double arithmetic, by their number. Where the entries' scores are
  integers of absolute value at most \<open>B\<close> and their number times \<open>B\<close> is below \<open>2 ^ 52\<close>,
  which is so whenever the same holds of all subject scores of the input, this is the
  mean of the entries' scores rounded to the nearest integer, a tie going up. The
  percentage does not depend on the inputs' \<open>totalObtained\<close> and \<open>totalPossible\<close>: two
  batches with the same subject lists get the same percentage.
\<close>

theorem percentage_from_avgSubjects:
  assumes "calculateClassAverage lib rs = Inr r"
  shows "percentage r = calculateAverageScore (Some (subjects r)) \<and>
         percentage r =
           (if subjects r = [] then Fin 0
            else Math_round (js_divide (float_sum (map score (subjects r)))
                   (length (subjects r)))) \<and>
         (small_integers B (map score (allSubjects rs)) \<longrightarrow>
            small_integers B (map score (subjects r))) \<and>
         (subjects r \<noteq> [] \<longrightarrow> small_integers B (map score (subjects r)) \<longrightarrow>
            percentage r = Fin (of_int (exact_rounded_mean (map score (subjects r)))) \<and>
            exact_mean (map score (subjects r)) - 1 / 2
              < of_int (exact_rounded_mean (map score (subjects r))) \<and>
            of_int (exact_rounded_mean (map score (subjects r)))
              \<le> exact_mean (map score (subjects r)) + 1 / 2) \<and>
         (\<forall>rs' r'. map subjects rs' = map subjects rs \<longrightarrow>
                   calculateClassAverage lib rs' = Inr r' \<longrightarrow> percentage r' = percentage r)"
proof -
  note c = calculateClassAverage_Inr[OF assms]
  have p: "percentage r = calculateAverageScore (Some (subjects r))" by (rule c(5))
  have q: "percentage r =
           (if subjects r = [] then Fin 0
            else Math_round (js_divide (float_sum (map score (subjects r)))
                   (length (subjects r))))"
    unfolding p by (rule calculateAverageScore_Some)
  have s: "small_integers B (map score (subjects r))"
    if "small_integers B (map score (allSubjects rs))"
    unfolding c(2) subjectMap_aggregate using that by (rule avg_scores_small)
  have e: "percentage r = Fin (of_int (exact_rounded_mean (map score (subjects r))))"
    if n: "subjects r \<noteq> []" and s: "small_integers B (map score (subjects r))"
  proof -
    have "map score (subjects r) \<noteq> []" using n by simp
    from rounded_mean_exact(1)[OF s this] show ?thesis
      unfolding p calculateAverageScore_nonempty[OF n] by simp
  qed
  have i: "percentage r' = percentage r"
    if "map subjects rs' = map subjects rs" and "calculateClassAverage lib rs' = Inr r'"
    for rs' r'
  proof -
    have "allSubjects rs' = allSubjects rs" using that(1) by (simp add: allSubjects_def)
    then have "subjects r' = subjects r"
      using calculateClassAverage_Inr(2)[OF that(2)] c(2) by (simp add: subjectMap_aggregate)
    then show ?thesis using calculateClassAverage_Inr(5)[OF that(2)] p by simp
  qed
  from p q s e i exact_rounded_mean_nearest(2,3)[of "map score (subjects r)"]
  show ?thesis by blast
qed

theorem percentage_from_avgSubjects_witness:
  "calculateClassAverage latin1 scenario = Inr scenario_average \<and>
   small_integers 100 (map score (allSubjects scenario)) \<and>
   map score (subjects scenario_average) = [Fin 70, Fin 80] \<and>
   subjects scenario_average \<noteq> [] \<and>
   small_integers 100 (map score (subjects scenario_average)) \<and>
   exact_rounded_mean (map score (subjects scenario_average)) = 75 \<and>
   percentage scenario_average = Fin 75"
proof -
  have m: "map score (subjects scenario_average) = [Fin 70, Fin 80]"
    and n: "subjects scenario_average \<noteq> []"
    and p: "percentage scenario_average = Fin 75"
    by (simp_all add: scenario_average_def)
  have e: "exact_rounded_mean (map score (subjects scenario_average)) = 75"
    unfolding m exact_rounded_mean_def by (rule floor_unique) (simp_all add: val_def)
  from percentage_from_avgSubjects[OF scenario_result, of 100] scenario_small(1)
  have "small_integers 100 (map score (subjects scenario_average))" by blast
  with scenario_result scenario_small(1) m n e p show ?thesis by blast
qed

section \<open>The divisions\<close>





section \<open>The order of the batch\<close>

lemma threeMarks_mean:
  "Math_round (js_divide (float_sum threeMarks) (length threeMarks)) = Fin 74"
  "Math_round (js_divide (float_sum threeMarksRotated) (length threeMarksRotated)) = Fin 73"
proof -
  have l: "length threeMarks = 3" "length threeMarksRotated = 3"
    by (simp_all add: threeMarks_def threeMarksRotated_def)
  show "Math_round (js_divide (float_sum threeMarks) (length threeMarks)) = Fin 74"
    unfolding l unfolding threeMarks_def by (rule marks_736_508_961(1))
  show "Math_round (js_divide (float_sum threeMarksRotated) (length threeMarksRotated)) = Fin 73"
    unfolding l unfolding threeMarksRotated_def by (rule marks_508_961_736(1))
qed

lemma mathStudents_integer:
  assumes "xs \<noteq> []" and "calculateClassAverage latin1 (mathStudents xs) = Inr r"
    and "Math_round (js_divide (float_sum xs) (length xs)) = Fin (numeral n)"
    and "(numeral n :: int) \<le> 2 ^ 53"
  shows "map score (subjects r) = [Fin (numeral n)]"
    and "totalObtained r = Fin (numeral n)"
    and "percentage r = Fin (numeral n)"
proof -
  note t = mathStudents_result[OF assms(1,2), unfolded assms(3)]
  show "map score (subjects r) = [Fin (numeral n)]" unfolding t(1) by simp
  show "totalObtained r = Fin (numeral n)" by (rule t(2))
  show "percentage r = Fin (numeral n)"
    unfolding t(3) using assms(4) by (simp add: float_sum_def number_simps del: Math_round.simps)
qed

text \<open>
  The statement of claim C8 fails for marks with a fractional part. Three students with
  the subject Math, of scores and totals 73.6, 50.8 and 96.1, aggregate to the averaged
  score, \<open>totalObtained\<close> and percentage 74; the same students in the order 50.8, 96.1,
  73.6 aggregate to 73.
\<close>

theorem order_counterexample:
  "mset (mathStudents threeMarksRotated) = mset (mathStudents threeMarks) \<and>
   (\<exists>r r'. calculateClassAverage latin1 (mathStudents threeMarks) = Inr r \<and>
           calculateClassAverage latin1 (mathStudents threeMarksRotated) = Inr r' \<and>
           map score (subjects r) = [Fin 74] \<and> map score (subjects r') = [Fin 73] \<and>
           totalObtained r = Fin 74 \<and> totalObtained r' = Fin 73 \<and>
           percentage r = Fin 74 \<and> percentage r' = Fin 73)"
proof -
  have m: "mset (mathStudents threeMarksRotated) = mset (mathStudents threeMarks)"
    unfolding mathStudents_def threeMarks_def threeMarksRotated_def mset_map
    by (simp add: add_mset_commute)
  have n: "threeMarks \<noteq> []" "threeMarksRotated \<noteq> []"
    by (simp_all add: threeMarks_def threeMarksRotated_def)
  then have "mathStudents threeMarks \<noteq> []" "mathStudents threeMarksRotated \<noteq> []"
    by (simp_all add: mathStudents_def)
  then obtain r r' where r: "calculateClassAverage latin1 (mathStudents threeMarks) = Inr r"
    and r': "calculateClassAverage latin1 (mathStudents threeMarksRotated) = Inr r'"
    using calculateClassAverage_nonempty by blast
  have b: "(74 :: int) \<le> 2 ^ 53" "(73 :: int) \<le> 2 ^ 53" by simp_all
  note a = mathStudents_integer[OF n(1) r threeMarks_mean(1) b(1)]
  note a' = mathStudents_integer[OF n(2) r' threeMarks_mean(2) b(2)]
  show ?thesis
    by (intro conjI exI[of _ r] exI[of _ r']) (rule m r r' a a')+
qed

text \<open>
  Claim C8, amended. For a permutation \<open>rs'\<close> of a non-empty batch \<open>rs\<close>, both aggregates
  exist, have the same number of averaged entries, and key by key their entries have the
  same name and the same \<open>fullMarks\<close>. Where all subject scores of the batch are integers
  of absolute value at most \<open>B\<close> and their number times \<open>B\<close> is below \<open>2 ^ 52\<close>, the entries
  are the same key by key, so the two subject lists differ at most in their order, and the
  percentage is the same. Where the same holds of the inputs' \<open>totalObtained\<close>, the
  aggregates' \<open>totalObtained\<close> is the same, and likewise for \<open>totalPossible\<close>. With all
  three, the two records differ at most in the order of the subject list.
\<close>

theorem aggregation_order_invariant:
  assumes "mset rs' = mset rs" and "calculateClassAverage lib rs = Inr r"
  shows "\<exists>r'. calculateClassAverage lib rs' = Inr r' \<and>
           (\<forall>e. (e \<in> set (subjects r)) = (\<exists>k. entryOf lib rs k = Some e)) \<and>
           (\<forall>e. (e \<in> set (subjects r')) = (\<exists>k. entryOf lib rs' k = Some e)) \<and>
           length (subjects r') = length (subjects r) \<and>
           (\<forall>k. map_option subject (entryOf lib rs' k) = map_option subject (entryOf lib rs k) \<and>
                map_option fullMarks (entryOf lib rs' k)
                  = map_option fullMarks (entryOf lib rs k)) \<and>
           (small_integers B (map score (allSubjects rs)) \<longrightarrow>
              (\<forall>k. entryOf lib rs' k = entryOf lib rs k) \<and>
              mset (subjects r') = mset (subjects r) \<and>
              percentage r' = percentage r) \<and>
           (small_integers B (map totalObtained rs) \<longrightarrow> totalObtained r' = totalObtained r) \<and>
           (small_integers B (map totalPossible rs) \<longrightarrow> totalPossible r' = totalPossible r) \<and>
           (small_integers B (map score (allSubjects rs)) \<longrightarrow>
            small_integers B (map totalObtained rs) \<longrightarrow>
            small_integers B (map totalPossible rs) \<longrightarrow>
              r' = r\<lparr>subjects := subjects r'\<rparr>)"
proof -
  have ne: "rs \<noteq> []" using assms(2) by (rule calculateClassAverage_Inr(1))
  have len: "length rs' = length rs" using assms(1) by (rule mset_eq_length)
  then have ne': "rs' \<noteq> []" using ne by auto
  then obtain r' where r': "calculateClassAverage lib rs' = Inr r'"
    using calculateClassAverage_nonempty by blast
  note f = calculateClassAverage_Inr[OF assms(2)] and f' = calculateClassAverage_Inr[OF r']
  note A = allSubjects_mset[OF assms(1)]
  have 1: "\<forall>e. (e \<in> set (subjects r)) = (\<exists>k. entryOf lib rs k = Some e)"
    unfolding f(2) by (intro allI) (rule entries_entryOf)
  have 2: "\<forall>e. (e \<in> set (subjects r')) = (\<exists>k. entryOf lib rs' k = Some e)"
    unfolding f'(2) by (intro allI) (rule entries_entryOf)
  have 3: "length (subjects r') = length (subjects r)"
    unfolding f(2) f'(2) subjectMap_aggregate length_map by (rule subjectMap_length_mset[OF A])
  have 4: "\<forall>k. map_option subject (entryOf lib rs' k) = map_option subject (entryOf lib rs k) \<and>
                map_option fullMarks (entryOf lib rs' k)
                  = map_option fullMarks (entryOf lib rs k)"
    by (simp add: entryOf_eq contributors_Nil_mset[OF A] avgSubject_def
          groupAcc_mset_parts(2)[OF A])
  have 5: "(\<forall>k. entryOf lib rs' k = entryOf lib rs k) \<and>
           mset (subjects r') = mset (subjects r) \<and> percentage r' = percentage r"
    if S: "small_integers B (map score (allSubjects rs))"
  proof (intro conjI)
    show "\<forall>k. entryOf lib rs' k = entryOf lib rs k"
      by (simp add: entryOf_eq contributors_Nil_mset[OF A] groupAcc_mset[OF A S])
    show s: "mset (subjects r') = mset (subjects r)"
      unfolding f(2) f'(2) subjectMap_aggregate mset_map
      by (simp only: subjectMap_mset[OF A S])
    have "small_integers B (map score (subjects r))"
      unfolding f(2) subjectMap_aggregate using S by (rule avg_scores_small)
    with s show "percentage r' = percentage r"
      unfolding f(5) f'(5) by (rule calculateAverageScore_mset)
  qed
  have 6: "totalObtained r' = totalObtained r" if S: "small_integers B (map totalObtained rs)"
  proof -
    have "mset (map totalObtained rs') = mset (map totalObtained rs)" using assms(1) by simp
    from small_integers_mset(2)[OF this S] show ?thesis unfolding f(3) f'(3) len by simp
  qed
  have 7: "totalPossible r' = totalPossible r" if S: "small_integers B (map totalPossible rs)"
  proof -
    have "mset (map totalPossible rs') = mset (map totalPossible rs)" using assms(1) by simp
    from small_integers_mset(2)[OF this S] show ?thesis unfolding f(4) f'(4) len by simp
  qed
  have 8: "r' = r\<lparr>subjects := subjects r'\<rparr>"
    if S: "small_integers B (map score (allSubjects rs))"
      and O: "small_integers B (map totalObtained rs)"
      and P: "small_integers B (map totalPossible rs)"
  proof -
    have q: "percentage r' = percentage r" using 5[OF S] by blast
    show ?thesis
      by (rule AnalysisResult.equality)
         (simp_all add: 6[OF O] 7[OF P] q f(6,7,9) f'(6,7,9) f(8) f'(8) len)
  qed
  show ?thesis
    by (rule exI[of _ r']) (use r' 1 2 3 4 5 6 7 8 in blast)
qed

theorem aggregation_order_invariant_witness:
  "mset (rev scenario) = mset scenario \<and>
   calculateClassAverage latin1 scenario = Inr scenario_average \<and>
   small_integers 200 (map score (allSubjects scenario)) \<and>
   small_integers 200 (map totalObtained scenario) \<and>
   small_integers 200 (map totalPossible scenario) \<and>
   (\<exists>r'. calculateClassAverage latin1 (rev scenario) = Inr r' \<and>
         mset (subjects r') = mset (subjects scenario_average) \<and>
         percentage r' = Fin 75 \<and> totalObtained r' = Fin 150 \<and> totalPossible r' = Fin 200 \<and>
         r' = scenario_average\<lparr>subjects := subjects r'\<rparr>)"
proof -
  have m: "mset (rev scenario) = mset scenario" by simp
  have s: "small_integers 200 (map score (allSubjects scenario))"
    by (simp add: scenario_def mkResult_def allSubjects_def small_integers_def
          is_int_within_def)
  from aggregation_order_invariant[OF m scenario_result, of 200] s scenario_small(2,3)
  obtain r' where r': "calculateClassAverage latin1 (rev scenario) = Inr r'"
    "mset (subjects r') = mset (subjects scenario_average)"
    "percentage r' = percentage scenario_average"
    "totalObtained r' = totalObtained scenario_average"
    "totalPossible r' = totalPossible scenario_average"
    "r' = scenario_average\<lparr>subjects := subjects r'\<rparr>"
    by blast
  have v: "percentage scenario_average = Fin 75" "totalObtained scenario_average = Fin 150"
    "totalPossible scenario_average = Fin 200"
    by (simp_all add: scenario_average_def)
  have "\<exists>r'. calculateClassAverage latin1 (rev scenario) = Inr r' \<and>
         mset (subjects r') = mset (subjects scenario_average) \<and>
         percentage r' = Fin 75 \<and> totalObtained r' = Fin 150 \<and> totalPossible r' = Fin 200 \<and>
         r' = scenario_average\<lparr>subjects := subjects r'\<rparr>"
    by (rule exI[of _ r']) (use r' v in simp)
  with m scenario_result s scenario_small(2,3) show ?thesis by blast
qed

section \<open>Trimming and the names of the entries\<close>

lemma last_dropWhile:
  assumes "dropWhile P xs \<noteq> []"
  shows "last (dropWhile P xs) = last xs"
proof -
  have "xs = takeWhile P xs @ dropWhile P xs" by simp
  then have "last xs = last (takeWhile P xs @ dropWhile P xs)" by simp
  also have "\<dots> = last (dropWhile P xs)" using assms by (simp only: last_append if_False)
  finally show ?thesis by simp
qed

lemma trim_edges:
  "trim s \<noteq> [] \<Longrightarrow> \<not> isWhiteSpace (hd (trim s)) \<and> \<not> isWhiteSpace (last (trim s))"
proof -
  assume a: "trim s \<noteq> []"
  let ?t = "dropWhile isWhiteSpace s"
  let ?u = "dropWhile isWhiteSpace (rev ?t)"
  have u: "?u \<noteq> []" using a by (simp add: trim_def)
  have t: "?t \<noteq> []"
  proof
    assume e: "?t = []"
    have "?u = []" unfolding e by simp
    with u show False by simp
  qed
  have "\<not> isWhiteSpace (hd ?u)" using u by (rule hd_dropWhile)
  then have l: "\<not> isWhiteSpace (last (trim s))" using u by (simp add: trim_def last_rev)
  have "last ?u = last (rev ?t)" using u by (rule last_dropWhile)
  also have "\<dots> = hd ?t" using t by (simp add: last_rev)
  finally have "hd (trim s) = hd ?t" using u by (simp add: trim_def hd_rev)
  moreover have "\<not> isWhiteSpace (hd ?t)" using t by (rule hd_dropWhile)
  ultimately show ?thesis using l by simp
qed

lemma dropWhile_hd_id: "xs \<noteq> [] \<Longrightarrow> \<not> P (hd xs) \<Longrightarrow> dropWhile P xs = xs"
  by (cases xs) simp_all

lemma trim_id:
  "s = [] \<or> (\<not> isWhiteSpace (hd s) \<and> \<not> isWhiteSpace (last s)) \<Longrightarrow> trim s = s"
proof (cases s)
  case Nil
  then show ?thesis by (simp add: trim_def)
next
  case (Cons c cs)
  assume "s = [] \<or> (\<not> isWhiteSpace (hd s) \<and> \<not> isWhiteSpace (last s))"
  with Cons have h: "\<not> isWhiteSpace c" and l: "\<not> isWhiteSpace (last s)" by auto
  have 1: "dropWhile isWhiteSpace s = s" using h Cons by simp
  have "rev s \<noteq> []" using Cons by simp
  moreover have "hd (rev s) = last s"
    using \<open>rev s \<noteq> []\<close> by (simp only: hd_rev rev_is_Nil_conv if_False)
  then have "\<not> isWhiteSpace (hd (rev s))" using l by simp
  ultimately have 2: "dropWhile isWhiteSpace (rev s) = rev s"
    by (rule dropWhile_hd_id)
  show ?thesis by (simp add: trim_def 1 2)
qed

lemma set_trim: "set (trim s) \<subseteq> set s"
proof -
  have "set (trim s) = set (dropWhile isWhiteSpace (rev (dropWhile isWhiteSpace s)))"
    by (simp add: trim_def)
  also have "\<dots> \<subseteq> set (rev (dropWhile isWhiteSpace s))" by (auto dest: set_dropWhileD)
  also have "\<dots> \<subseteq> set s" by (auto dest: set_dropWhileD)
  finally show ?thesis .
qed

lemma latin1_lower_ascii:
  "isAscii s \<Longrightarrow>
   toLowerCase latin1 s = map (\<lambda>c. if 65 \<le> c \<and> c \<le> 90 then c + 32 else c) s"
  by (induction s) (simp_all add: isAscii_def latin1_def latin1_toLowerCase_def)

lemma latin1_upper_ascii:
  "c < 128 \<Longrightarrow> toUpperCase latin1 [c] = [if 97 \<le> c \<and> c \<le> 122 then c - 32 else c]"
  by (simp add: latin1_def latin1_toUpperCase_def)

lemma latin1_display_key:
  assumes "isAscii s"
  shows "normKey latin1 (toUpperCase latin1 (charAt0 (normKey latin1 s)) @ slice1 (normKey latin1 s))
           = normKey latin1 s"
proof -
  define low where "low = (\<lambda>c::nat. if 65 \<le> c \<and> c \<le> 90 then c + 32 else c)"
  define up where "up = (\<lambda>c::nat. if 97 \<le> c \<and> c \<le> 122 then c - 32 else c)"
  have lo: "toLowerCase latin1 t = map low t" if "isAscii t" for t
    unfolding low_def using that by (rule latin1_lower_ascii)
  have ta: "isAscii (trim s)"
    using assms set_trim[of s] by (auto simp: isAscii_def list_all_iff)
  have letter: "\<not> isWhiteSpace x" if "65 \<le> x" and "x \<le> 122" for x
    using that by (simp add: isWhiteSpace_def)
  have low128: "low c < 128" if "c < 128" for c
    using that by (simp add: low_def)
  have lowlow: "low (low c) = low c" for c by (simp add: low_def)
  have lowup: "low (up (low c)) = low c" for c
  proof (cases "65 \<le> c \<and> c \<le> 90")
    case True
    then show ?thesis by (simp add: low_def up_def)
  next
    case False
    then have l: "low c = c" unfolding low_def by (rule if_not_P)
    show ?thesis
    proof (cases "97 \<le> c \<and> c \<le> 122")
      case True
      then have "up c = c - 32" unfolding up_def by (rule if_P)
      moreover have "65 \<le> c - 32 \<and> c - 32 \<le> 90" using True by arith
      then have "low (c - 32) = c - 32 + 32" unfolding low_def by (rule if_P)
      ultimately show ?thesis using True l by simp
    next
      case False
      then have "up c = c" unfolding up_def by (rule if_not_P)
      then show ?thesis using l by simp
    qed
  qed
  have wslow: "\<not> isWhiteSpace (low c)" if "\<not> isWhiteSpace c" for c
  proof (cases "65 \<le> c \<and> c \<le> 90")
    case True
    then have "low c = c + 32" unfolding low_def by (rule if_P)
    moreover have "65 \<le> c + 32" "c + 32 \<le> 122" using True by arith+
    then have "\<not> isWhiteSpace (c + 32)" by (rule letter)
    ultimately show ?thesis by simp
  next
    case False
    then have "low c = c" unfolding low_def by (rule if_not_P)
    then show ?thesis using that by simp
  qed
  have wsup: "\<not> isWhiteSpace (up (low c))" if "\<not> isWhiteSpace c" for c
  proof (cases "97 \<le> low c \<and> low c \<le> 122")
    case True
    then have "up (low c) = low c - 32" unfolding up_def by (rule if_P)
    moreover have "65 \<le> low c - 32" "low c - 32 \<le> 122" using True by arith+
    then have "\<not> isWhiteSpace (low c - 32)" by (rule letter)
    ultimately show ?thesis by simp
  next
    case False
    then have "up (low c) = low c" unfolding up_def by (rule if_not_P)
    then show ?thesis using wslow[OF that] by simp
  qed
  have k: "normKey latin1 s = map low (trim s)" by (simp add: normKey_def lo[OF ta])
  show ?thesis
  proof (cases "trim s")
    case Nil
    have e: "toUpperCase latin1 [] = []" by (simp add: latin1_def latin1_toUpperCase_def)
    have "isAscii []" by (simp add: isAscii_def)
    from lo[OF this] show ?thesis
      unfolding k Nil by (simp add: charAt0_def slice1_def e normKey_def trim_def)
  next
    case (Cons c cs)
    have c: "c < 128" and cs: "\<forall>x \<in> set cs. x < 128"
      using ta Cons by (simp_all add: isAscii_def list_all_iff)
    have edges: "\<not> isWhiteSpace c" "\<not> isWhiteSpace (last (c # cs))"
      using trim_edges[of s] Cons by simp_all
    have lc: "low c < 128" using c by (rule low128)
    let ?d = "up (low c) # map low cs"
    have d: "toUpperCase latin1 (charAt0 (normKey latin1 s)) @ slice1 (normKey latin1 s) = ?d"
      unfolding k Cons using latin1_upper_ascii[OF lc]
      by (simp add: charAt0_def slice1_def up_def)
    have da: "isAscii ?d"
    proof -
      have "up (low c) < 128" using lc by (auto simp: up_def)
      moreover have "\<forall>x \<in> set cs. low x < 128" using cs by (auto simp: low_def)
      ultimately show ?thesis by (simp add: isAscii_def list_all_iff)
    qed
    have h: "\<not> isWhiteSpace (hd ?d)" using edges(1) by (simp add: wsup)
    have l: "\<not> isWhiteSpace (last ?d)"
    proof (cases cs rule: rev_cases)
      case Nil
      then show ?thesis using edges(1) by (simp add: wsup)
    next
      case (snoc ys y)
      then have "\<not> isWhiteSpace y" using edges(2) by simp
      then show ?thesis using snoc by (simp add: wslow)
    qed
    have t: "trim ?d = ?d" using h l by (intro trim_id) simp
    have "normKey latin1 ?d = map low ?d"
      unfolding normKey_def t by (rule lo[OF da])
    also have "\<dots> = low c # map low cs" by (simp add: lowup lowlow)
    finally show ?thesis unfolding d unfolding k Cons by simp
  qed
qed

lemma entry_keys:
  assumes "\<forall>k \<in> set (map fst M). normKey lib (toUpperCase lib (charAt0 k) @ slice1 k) = k"
  shows "map (\<lambda>e. normKey lib (subject e)) (map (avgSubject lib) M) = map fst M"
  using assms by (induction M) (auto simp: avgSubject_def)

section \<open>One averaged entry per normalization key\<close>

lemma entry_names:
  "map subject (map (avgSubject lib) M)
     = map (\<lambda>k. toUpperCase lib (charAt0 k) @ slice1 k) (map fst M)"
  by (induction M) (auto simp: avgSubject_def)

lemma sharpStudent_subjects:
  "map (\<lambda>s. normKey latin1 (subject s)) (allSubjects [sharpStudent]) = [[223], lit ''ss'']"
  "map subject (map (avgSubject latin1) (subjectMap (aggregate latin1 [sharpStudent])))
     = [lit ''SS'', lit ''Ss'']"
  "normKey latin1 (lit ''SS'') = lit ''ss''"
  "normKey latin1 (lit ''Ss'') = lit ''ss''"
proof -
  have k: "normKey latin1 [223] = [223]" "normKey latin1 (lit ''ss'') = lit ''ss''"
    by (simp_all add: string_defs)
  have n: "toUpperCase latin1 (charAt0 [223]) @ slice1 [223] = lit ''SS''"
    "toUpperCase latin1 (charAt0 (lit ''ss'')) @ slice1 (lit ''ss'') = lit ''Ss''"
    by (simp_all add: string_defs)
  have d: "[223] \<noteq> lit ''ss''" "lit ''ss'' \<noteq> [223]" by (simp_all add: lit_def)
  show "map (\<lambda>s. normKey latin1 (subject s)) (allSubjects [sharpStudent]) = [[223], lit ''ss'']"
    by (simp add: sharpStudent_def example_defs k)
  have "map fst (subjectMap (aggregate latin1 [sharpStudent])) = [[223], lit ''ss'']"
    by (simp add: subjectMap_aggregate sharpStudent_def example_defs addSubject_def k d)
  then have "map subject (map (avgSubject latin1) (subjectMap (aggregate latin1 [sharpStudent])))
      = map (\<lambda>k. toUpperCase latin1 (charAt0 k) @ slice1 k) [[223], lit ''ss'']"
    by (simp only: entry_names)
  then show "map subject (map (avgSubject latin1) (subjectMap (aggregate latin1 [sharpStudent])))
     = [lit ''SS'', lit ''Ss'']"
    by (simp add: n)
  show "normKey latin1 (lit ''SS'') = lit ''ss''" "normKey latin1 (lit ''Ss'') = lit ''ss''"
    by (simp_all add: string_defs)
qed

text \<open>
  The last part of claim C1 fails where upper-casing changes more than the case of a
  letter. For a student with the two subjects named \<open>\<ss>\<close> and \<open>ss\<close> the keys are \<open>\<ss>\<close> and
  \<open>ss\<close>, two keys; the averaged entries are named \<open>SS\<close> and \<open>Ss\<close>, and both names
  normalize to \<open>ss\<close>.
\<close>

theorem normalized_names_counterexample:
  "\<exists>r. calculateClassAverage latin1 [sharpStudent] = Inr r \<and>
       map (\<lambda>s. normKey latin1 (subject s)) (allSubjects [sharpStudent]) = [[223], lit ''ss''] \<and>
       map subject (subjects r) = [lit ''SS'', lit ''Ss''] \<and>
       map (\<lambda>e. normKey latin1 (subject e)) (subjects r) = [lit ''ss'', lit ''ss'']"
proof -
  have "[sharpStudent] \<noteq> []" by simp
  then obtain r where r: "calculateClassAverage latin1 [sharpStudent] = Inr r"
    using calculateClassAverage_nonempty by blast
  have s: "map subject (subjects r) = [lit ''SS'', lit ''Ss'']"
    unfolding calculateClassAverage_Inr(2)[OF r] by (rule sharpStudent_subjects(2))
  have "map (\<lambda>e. normKey latin1 (subject e)) (subjects r)
      = map (normKey latin1) (map subject (subjects r))"
    by simp
  also have "\<dots> = [lit ''ss'', lit ''ss'']" unfolding s by (simp add: sharpStudent_subjects(3,4))
  finally have n: "map (\<lambda>e. normKey latin1 (subject e)) (subjects r) = [lit ''ss'', lit ''ss'']" .
  show ?thesis
    by (intro exI[of _ r] conjI) (rule r sharpStudent_subjects(1) s n)+
qed

lemma ascii_keys:
  assumes "\<forall>s \<in> set subs. isAscii (subject s)"
  shows "\<forall>k \<in> set (map fst (foldl (addSubject latin1) [] subs)).
           normKey latin1 (toUpperCase latin1 (charAt0 k) @ slice1 k) = k"
proof
  fix k assume "k \<in> set (map fst (foldl (addSubject latin1) [] subs))"
  then have "k \<in> (\<lambda>s. normKey latin1 (subject s)) ` set subs"
    using keys_subjectMap[of latin1 subs] by simp
  then obtain s where s: "s \<in> set subs" and k: "k = normKey latin1 (subject s)" by auto
  from assms s have "isAscii (subject s)" by blast
  then show "normKey latin1 (toUpperCase latin1 (charAt0 k) @ slice1 k) = k"
    unfolding k by (rule latin1_display_key)
qed

text \<open>
  Claim C1, amended. For a non-empty list of results \<open>calculateClassAverage\<close> returns a
  record whose subject list has exactly one entry per normalization key occurring in the
  input: the entries are built one from each pair of the subject map, whose keys are
  pairwise distinct and are exactly the keys of the input's subject scores, so there are
  as many entries as keys. Two names have the same key if and only if they are equal after
  trimming and lowercasing: \<open>Math\<close> and \<open> math \<close> share a key, \<open>Math\<close> and \<open>Maths\<close> do not.
  The normalized names of the entries themselves are the keys again, and so pairwise
  distinct, where normalizing the name built from a key gives back the key; this is so
  for input names of ASCII characters.
\<close>

theorem one_entry_per_key:
  assumes "rs \<noteq> []"
  shows "\<exists>r. calculateClassAverage lib rs = Inr r \<and>
           subjects r = map (avgSubject lib) (subjectMap (aggregate lib rs)) \<and>
           distinct (map fst (subjectMap (aggregate lib rs))) \<and>
           set (map fst (subjectMap (aggregate lib rs)))
             = (\<lambda>s. normKey lib (subject s)) ` set (allSubjects rs) \<and>
           length (subjects r) = card ((\<lambda>s. normKey lib (subject s)) ` set (allSubjects rs)) \<and>
           (\<forall>a b. (normKey lib a = normKey lib b)
                    = (toLowerCase lib (trim a) = toLowerCase lib (trim b))) \<and>
           normKey latin1 (lit ''Math'') = normKey latin1 (lit '' math '') \<and>
           normKey latin1 (lit ''Math'') \<noteq> normKey latin1 (lit ''Maths'') \<and>
           ((\<forall>k \<in> set (map fst (subjectMap (aggregate lib rs))).
                normKey lib (toUpperCase lib (charAt0 k) @ slice1 k) = k) \<longrightarrow>
              map (\<lambda>e. normKey lib (subject e)) (subjects r)
                = map fst (subjectMap (aggregate lib rs)) \<and>
              distinct (map (\<lambda>e. normKey lib (subject e)) (subjects r))) \<and>
           ((\<forall>s \<in> set (allSubjects rs). isAscii (subject s)) \<longrightarrow>
              (\<exists>r1. calculateClassAverage latin1 rs = Inr r1 \<and>
                 map (\<lambda>e. normKey latin1 (subject e)) (subjects r1)
                   = map fst (subjectMap (aggregate latin1 rs)) \<and>
                 distinct (map (\<lambda>e. normKey latin1 (subject e)) (subjects r1))))"
proof -
  from assms obtain r where r: "calculateClassAverage lib rs = Inr r"
    using calculateClassAverage_nonempty by blast
  from assms obtain r1 where r1: "calculateClassAverage latin1 rs = Inr r1"
    using calculateClassAverage_nonempty by blast
  let ?M = "subjectMap (aggregate lib rs)"
  have u: "subjects r = map (avgSubject lib) ?M" by (rule calculateClassAverage_Inr(2)[OF r])
  have d: "distinct (map fst ?M)" unfolding subjectMap_aggregate by (rule distinct_subjectMap)
  have s: "set (map fst ?M) = (\<lambda>s. normKey lib (subject s)) ` set (allSubjects rs)"
    unfolding subjectMap_aggregate using keys_subjectMap[of lib "allSubjects rs"] by simp
  have "length (subjects r) = length (map fst ?M)" by (simp add: u)
  also have "\<dots> = card (set (map fst ?M))" using d by (simp only: distinct_card)
  finally have l: "length (subjects r) = card ((\<lambda>s. normKey lib (subject s)) ` set (allSubjects rs))"
    using s by simp
  have y: "\<forall>a b. (normKey lib a = normKey lib b)
                    = (toLowerCase lib (trim a) = toLowerCase lib (trim b))"
    by (simp add: normKey_def)
  have x1: "normKey latin1 (lit ''Math'') = normKey latin1 (lit '' math '')"
    by (simp add: string_defs)
  have x2: "normKey latin1 (lit ''Math'') \<noteq> normKey latin1 (lit ''Maths'')"
    by (simp add: string_defs)
  have c: "map (\<lambda>e. normKey lib (subject e)) (subjects r) = map fst ?M \<and>
           distinct (map (\<lambda>e. normKey lib (subject e)) (subjects r))"
    if "\<forall>k \<in> set (map fst ?M). normKey lib (toUpperCase lib (charAt0 k) @ slice1 k) = k"
  proof -
    have "map (\<lambda>e. normKey lib (subject e)) (subjects r) = map fst ?M"
      unfolding u using that by (rule entry_keys)
    with d show ?thesis by simp
  qed
  have a: "\<exists>r1. calculateClassAverage latin1 rs = Inr r1 \<and>
             map (\<lambda>e. normKey latin1 (subject e)) (subjects r1)
               = map fst (subjectMap (aggregate latin1 rs)) \<and>
             distinct (map (\<lambda>e. normKey latin1 (subject e)) (subjects r1))"
    if A: "\<forall>s \<in> set (allSubjects rs). isAscii (subject s)"
  proof -
    let ?L = "subjectMap (aggregate latin1 rs)"
    have k: "\<forall>k \<in> set (map fst ?L). normKey latin1 (toUpperCase latin1 (charAt0 k) @ slice1 k) = k"
      unfolding subjectMap_aggregate using A by (rule ascii_keys)
    have e: "map (\<lambda>e. normKey latin1 (subject e)) (subjects r1) = map fst ?L"
      unfolding calculateClassAverage_Inr(2)[OF r1] using k by (rule entry_keys)
    have "distinct (map fst ?L)" unfolding subjectMap_aggregate by (rule distinct_subjectMap)
    with e have "distinct (map (\<lambda>e. normKey latin1 (subject e)) (subjects r1))" by simp
    with r1 e show ?thesis by blast
  qed
  show ?thesis
    by (rule exI[of _ r]) (use r u d s l y x1 x2 c a in blast)
qed

theorem one_entry_per_key_witness:
  "[mkResult ''Ann'' [oneSubject ''Math'' (Fin 80) (Some (Fin 100)),
                      oneSubject '' math '' (Fin 60) None] (Fin 140) (Fin 200)] \<noteq> [] \<and>
   isAscii (lit ''Math'') \<and> isAscii (lit '' math '') \<and>
   map (\<lambda>s. normKey latin1 (subject s))
     (allSubjects [mkResult ''Ann'' [oneSubject ''Math'' (Fin 80) (Some (Fin 100)),
                      oneSubject '' math '' (Fin 60) None] (Fin 140) (Fin 200)])
     = [lit ''math'', lit ''math''] \<and>
   (\<exists>r. calculateClassAverage latin1
           [mkResult ''Ann'' [oneSubject ''Math'' (Fin 80) (Some (Fin 100)),
                      oneSubject '' math '' (Fin 60) None] (Fin 140) (Fin 200)] = Inr r \<and>
        length (subjects r) = 1 \<and>
        distinct (map (\<lambda>e. normKey latin1 (subject e)) (subjects r)))"
proof -
  let ?rs = "[mkResult ''Ann'' [oneSubject ''Math'' (Fin 80) (Some (Fin 100)),
                      oneSubject '' math '' (Fin 60) None] (Fin 140) (Fin 200)]"
  have k: "normKey latin1 (lit '' math '') = lit ''math''" by (simp add: string_defs)
  have i: "isAscii (lit ''Math'')" "isAscii (lit '' math '')"
    by (simp_all add: isAscii_def lit_def)
  have m: "map (\<lambda>s. normKey latin1 (subject s)) (allSubjects ?rs) = [lit ''math'', lit ''math'']"
    by (simp add: example_defs k scenario_keys)
  have c: "card ((\<lambda>s. normKey latin1 (subject s)) ` set (allSubjects ?rs)) = 1"
    by (simp add: example_defs k scenario_keys)
  have A: "\<forall>s \<in> set (allSubjects ?rs). isAscii (subject s)"
    using i by (simp add: example_defs)
  have n: "?rs \<noteq> []" by simp
  from one_entry_per_key[OF n, of latin1] A obtain r r1 where
    r: "calculateClassAverage latin1 ?rs = Inr r"
    "length (subjects r) = card ((\<lambda>s. normKey latin1 (subject s)) ` set (allSubjects ?rs))"
    and r1: "calculateClassAverage latin1 ?rs = Inr r1"
    "distinct (map (\<lambda>e. normKey latin1 (subject e)) (subjects r1))"
    by blast
  have "r1 = r" using r(1) r1(1) by simp
  with r r1 c have "\<exists>r. calculateClassAverage latin1 ?rs = Inr r \<and>
        length (subjects r) = 1 \<and>
        distinct (map (\<lambda>e. normKey latin1 (subject e)) (subjects r))"
    by (intro exI[of _ r]) simp
  with n i m show ?thesis by blast
qed

end
